theory Spec2Isabelle
  imports Complex_Main
begin

section \<open>A one-dimensional finite-volume Euler solver (write\_a\_hydrocode)\<close>

text \<open>
  The notebook computes with \<open>float64\<close> numbers held in numpy arrays. A number is
  modelled by the type \<open>fl\<close>: a real number or one of the IEEE special values that
  numpy produces without raising (division by zero gives an infinity or NaN, the
  square root of a negative number gives NaN). Rounding, the overflow of a finite
  result to an infinity, its underflow to zero and the sign of zero are outside the
  model: a finite result is the exact real one. Where a statement below says that a
  computed number is positive or that it is finite (the timestep, the primitive
  variables of a uniform state), it bounds the sizes of the inputs, so that in
  \<open>float64\<close> nothing overflows, nothing that bears on the result underflows, and the
  number computed differs from the exact one by rounding only.
\<close>

subsection \<open>Numbers\<close>

datatype fl = Fin real | PInf | NInf | NaN

fun fneg :: "fl \<Rightarrow> fl" where
  "fneg (Fin a) = Fin (- a)"
| "fneg PInf = NInf"
| "fneg NInf = PInf"
| "fneg NaN = NaN"

fun fadd :: "fl \<Rightarrow> fl \<Rightarrow> fl" where
  "fadd (Fin a) (Fin b) = Fin (a + b)"
| "fadd (Fin a) PInf = PInf"
| "fadd (Fin a) NInf = NInf"
| "fadd PInf (Fin b) = PInf"
| "fadd PInf PInf = PInf"
| "fadd NInf (Fin b) = NInf"
| "fadd NInf NInf = NInf"
| "fadd _ _ = NaN"

definition fsub :: "fl \<Rightarrow> fl \<Rightarrow> fl" where
  "fsub a b = fadd a (fneg b)"

text \<open>An infinity with the sign of a real number; \<open>inf * 0\<close> and \<open>0 / 0\<close> are NaN.\<close>

definition inf_sign :: "real \<Rightarrow> fl" where
  "inf_sign s = (if s = 0 then NaN else if 0 < s then PInf else NInf)"

fun fmul :: "fl \<Rightarrow> fl \<Rightarrow> fl" where
  "fmul (Fin a) (Fin b) = Fin (a * b)"
| "fmul (Fin a) PInf = inf_sign a"
| "fmul (Fin a) NInf = inf_sign (- a)"
| "fmul PInf (Fin b) = inf_sign b"
| "fmul NInf (Fin b) = inf_sign (- b)"
| "fmul PInf PInf = PInf"
| "fmul PInf NInf = NInf"
| "fmul NInf PInf = NInf"
| "fmul NInf NInf = PInf"
| "fmul _ _ = NaN"

fun fdiv :: "fl \<Rightarrow> fl \<Rightarrow> fl" where
  "fdiv (Fin a) (Fin b) = (if b = 0 then inf_sign a else Fin (a / b))"
| "fdiv (Fin a) PInf = Fin 0"
| "fdiv (Fin a) NInf = Fin 0"
| "fdiv PInf (Fin b) = (if b < 0 then NInf else PInf)"
| "fdiv NInf (Fin b) = (if b < 0 then PInf else NInf)"
| "fdiv _ _ = NaN"

fun fsqrt :: "fl \<Rightarrow> fl" where
  "fsqrt (Fin a) = (if a < 0 then NaN else Fin (sqrt a))"
| "fsqrt PInf = PInf"
| "fsqrt _ = NaN"

fun fabs :: "fl \<Rightarrow> fl" where
  "fabs (Fin a) = Fin \<bar>a\<bar>"
| "fabs PInf = PInf"
| "fabs NInf = PInf"
| "fabs NaN = NaN"

text \<open>The maximum of two numbers as numpy's \<open>max\<close> reduction takes it: NaN wins.\<close>

fun fmax :: "fl \<Rightarrow> fl \<Rightarrow> fl" where
  "fmax NaN _ = NaN"
| "fmax _ NaN = NaN"
| "fmax PInf _ = PInf"
| "fmax _ PInf = PInf"
| "fmax NInf b = b"
| "fmax a NInf = a"
| "fmax (Fin a) (Fin b) = Fin (max a b)"

subsection \<open>Python and numpy primitives\<close>

datatype error = ZeroDivisionError | OverflowError | IndexError | ValueError

definition bindE :: "error + 'a \<Rightarrow> ('a \<Rightarrow> error + 'b) \<Rightarrow> error + 'b" where
  "bindE m f = (case m of Inl e \<Rightarrow> Inl e | Inr v \<Rightarrow> f v)"

text \<open>
  A slice bound \<open>i\<close> on a sequence of length \<open>n\<close>: a negative bound counts from the
  end, and every bound is clipped to \<open>0..n\<close>. Slices never raise.
\<close>

definition clip_index :: "nat \<Rightarrow> int \<Rightarrow> nat" where
  "clip_index n i = (if i < 0 then nat (i + int n) else min (nat i) n)"

definition py_slice :: "int \<Rightarrow> int \<Rightarrow> 'a list \<Rightarrow> 'a list" where
  "py_slice lo hi a =
     (let s = clip_index (length a) lo; e = clip_index (length a) hi
      in take (e - s) (drop s a))"

text \<open>\<open>a[i]\<close>: a negative index counts from the end; out of range raises.\<close>

definition py_index :: "'a list \<Rightarrow> int \<Rightarrow> error + 'a" where
  "py_index a i =
     (let n = int (length a); j = (if i < 0 then i + n else i)
      in if 0 \<le> j \<and> j < n then Inr (a ! nat j) else Inl IndexError)"

text \<open>\<open>a[lo:hi] = v\<close> for a scalar \<open>v\<close>, and \<open>a[lo:] = v\<close>.\<close>

definition fill_slice :: "int \<Rightarrow> int \<Rightarrow> 'a \<Rightarrow> 'a list \<Rightarrow> 'a list" where
  "fill_slice lo hi v a =
     (let s = clip_index (length a) lo; e = clip_index (length a) hi
      in if s < e then take s a @ replicate (e - s) v @ drop e a else a)"

definition fill_from :: "int \<Rightarrow> 'a \<Rightarrow> 'a list \<Rightarrow> 'a list" where
  "fill_from lo v a = fill_slice lo (int (length a)) v a"

text \<open>
  \<open>a[lo:hi] = vs\<close> for an array \<open>vs\<close>: the lengths agree, or \<open>vs\<close> has one
  element, which is broadcast; anything else raises ValueError.
\<close>

definition set_slice :: "int \<Rightarrow> int \<Rightarrow> 'a list \<Rightarrow> 'a list \<Rightarrow> error + 'a list" where
  "set_slice lo hi vs a =
     (let s = clip_index (length a) lo; e = clip_index (length a) hi; k = e - s
      in if length vs = k then Inr (if k = 0 then a else take s a @ vs @ drop e a)
         else if length vs = 1 then Inr (fill_slice lo hi (hd vs) a)
         else Inl ValueError)"

text \<open>An elementwise binary operation on two one-dimensional arrays, with broadcasting.\<close>

definition np_bop :: "('a \<Rightarrow> 'a \<Rightarrow> 'a) \<Rightarrow> 'a list \<Rightarrow> 'a list \<Rightarrow> error + 'a list" where
  "np_bop f a b =
     (if length a = length b then Inr (map2 f a b)
      else if length a = 1 then Inr (map (f (hd a)) b)
      else if length b = 1 then Inr (map (\<lambda>v. f v (hd b)) a)
      else Inl ValueError)"

text \<open>\<open>a.max()\<close>: raises on an empty array.\<close>

fun np_max :: "fl list \<Rightarrow> error + fl" where
  "np_max [] = Inl ValueError"
| "np_max (v # vs) = Inr (foldl fmax v vs)"

text \<open>\<open>range(lo, hi)\<close>\<close>

definition py_range :: "int \<Rightarrow> int \<Rightarrow> int list" where
  "py_range lo hi = [lo..hi - 1]"

subsection \<open>The grid\<close>

text \<open>
  \<open>xcoord\<close> is the field \<open>x\<close> of \<open>FVGrid\<close>. \<open>nx\<close> and \<open>ng\<close> are Python integers,
  \<open>xmin\<close> and \<open>xmax\<close> Python floats; \<open>(xmax - xmin)/nx\<close> is Python's own division
  of a float by an integer. It first converts the integer to a float, which raises
  OverflowError for an integer that rounds to \<open>2 ^ 1024\<close> or beyond (the greatest
  float is \<open>2 ^ 1024 - 2 ^ 971\<close>, and the integers from \<open>2 ^ 1024 - 2 ^ 970\<close> on round
  upwards), and then raises ZeroDivisionError on a zero divisor. \<open>np.arange\<close> of a
  negative count is empty; the array it allocates is taken to fit in memory.
\<close>

record grid =
  xmin :: real
  xmax :: real
  ng :: int
  nx :: int
  ilo :: int
  ihi :: int
  dx :: real
  xcoord :: "real list"

definition float_of_int_overflows :: "int \<Rightarrow> bool" where
  "float_of_int_overflows n = (2 ^ 1024 - 2 ^ 970 \<le> \<bar>n\<bar>)"

definition FVGrid :: "int \<Rightarrow> int \<Rightarrow> real \<Rightarrow> real \<Rightarrow> error + grid" where
  "FVGrid n_x n_g x_min x_max =
     (if float_of_int_overflows n_x then Inl OverflowError
      else if n_x = 0 then Inl ZeroDivisionError
      else
        let d = (x_max - x_min) / real_of_int n_x
        in Inr \<lparr> xmin = x_min, xmax = x_max, ng = n_g, nx = n_x,
                 ilo = n_g, ihi = n_g + n_x - 1, dx = d,
                 xcoord = map (\<lambda>k. x_min + (real_of_int (int k - n_g) + 0.5) * d)
                              [0 ..< nat (n_x + 2 * n_g)] \<rparr>)"

subsection \<open>Arrays, constants and scratch storage\<close>

text \<open>
  A numpy array is one-dimensional (a scalar per cell) or two-dimensional (a vector
  per cell). A two-dimensional array of shape \<open>(N, nc)\<close> is held by columns: the
  list of its \<open>nc\<close> columns, each of length \<open>N\<close>, so that \<open>a[i, n]\<close> is
  \<open>a ! n ! i\<close> and \<open>a[:, n]\<close> is \<open>a ! n\<close>.
\<close>

datatype field = Scalar "fl list" | Vector "fl list list"

text \<open>
  The columns of an array the caller knows to be two-dimensional, and the values of
  one it knows to be one-dimensional; \<open>scratch_array\<close> gives the first for
  \<open>nc = NVAR\<close> and the second for \<open>nc = 1\<close>.
\<close>

fun cols :: "field \<Rightarrow> fl list list" where
  "cols (Vector cs) = cs"
| "cols (Scalar a) = [a]"

fun vals :: "field \<Rightarrow> fl list" where
  "vals (Scalar a) = a"
| "vals (Vector cs) = concat cs"

definition ent :: "fl list list \<Rightarrow> int \<Rightarrow> nat \<Rightarrow> fl" where
  "ent a i n = a ! n ! nat i"

definition URHO :: nat where "URHO = 0"
definition UMX :: nat where "UMX = 1"
definition UENER :: nat where "UENER = 2"
definition QRHO :: nat where "QRHO = 0"
definition QU :: nat where "QU = 1"
definition QP :: nat where "QP = 2"
definition NVAR :: nat where "NVAR = 3"

definition gamma :: fl where "gamma = Fin 1.4"
definition C :: fl where "C = Fin 0.8"

text \<open>\<open>np.zeros\<close> refuses a negative dimension.\<close>

definition scratch_array :: "grid \<Rightarrow> nat \<Rightarrow> error + field" where
  "scratch_array g nc =
     (if nx g + 2 * ng g < 0 then Inl ValueError
      else if nc = 1 then Inr (Scalar (replicate (nat (nx g + 2 * ng g)) (Fin 0)))
      else Inr (Vector (replicate nc (replicate (nat (nx g + 2 * ng g)) (Fin 0)))))"

fun mapE :: "('a \<Rightarrow> error + 'b) \<Rightarrow> 'a list \<Rightarrow> error + 'b list" where
  "mapE f [] = Inr []"
| "mapE f (v # vs) = bindE (f v) (\<lambda>w. bindE (mapE f vs) (\<lambda>ws. Inr (w # ws)))"

fun foldE :: "('s \<Rightarrow> 'a \<Rightarrow> error + 's) \<Rightarrow> 's \<Rightarrow> 'a list \<Rightarrow> error + 's" where
  "foldE f s [] = Inr s"
| "foldE f s (v # vs) = bindE (f s v) (\<lambda>s'. foldE f s' vs)"

text \<open>
  \<open>for n in range(m): a[..., n] = F n (a[..., n])\<close>: the loop over the components
  that the notebook writes wherever it updates an array column by column. A column
  index beyond the array's width raises.
\<close>

definition for_cols ::
  "nat \<Rightarrow> (nat \<Rightarrow> fl list \<Rightarrow> error + fl list) \<Rightarrow> fl list list \<Rightarrow> error + fl list list" where
  "for_cols m F a =
     foldE (\<lambda>b n. if n < length b then bindE (F n (b ! n)) (\<lambda>c. Inr (b[n := c]))
                   else Inl IndexError) a [0 ..< m]"

subsection \<open>Boundary fill\<close>

text \<open>
  The two statements of \<open>fill_BCs\<close> on one column:
  \<open>a[0:ilo] = a[ilo]; a[ihi+1:] = a[ihi]\<close>.
\<close>

definition fill_col :: "grid \<Rightarrow> fl list \<Rightarrow> error + fl list" where
  "fill_col g a =
     bindE (py_index a (ilo g)) (\<lambda>v.
       let a1 = fill_slice 0 (ilo g) v a
       in bindE (py_index a1 (ihi g)) (\<lambda>w. Inr (fill_from (ihi g + 1) w a1)))"

text \<open>
  \<open>nc\<close> is \<open>atmp.shape[1]\<close>, or 1 when the array has one dimension. With \<open>nc = 1\<close>
  the two statements act on whole rows, otherwise the loop runs over the columns.
\<close>

definition fill_BCs :: "grid \<Rightarrow> field \<Rightarrow> error + field" where
  "fill_BCs g atmp =
     (case atmp of
        Scalar a \<Rightarrow> bindE (fill_col g a) (\<lambda>a'. Inr (Scalar a'))
      | Vector cs \<Rightarrow>
          if length cs = 1
          then bindE (fill_col g (hd cs)) (\<lambda>c. Inr (Vector [c]))
          else bindE (for_cols (length cs) (\<lambda>n. fill_col g) cs) (\<lambda>cs'. Inr (Vector cs')))"

text \<open>The \<open>i\<close>-th entry of a field: one number, or one number per component.\<close>

fun entry :: "field \<Rightarrow> nat \<Rightarrow> fl list" where
  "entry (Scalar a) i = [a ! i]"
| "entry (Vector cs) i = map (\<lambda>c. c ! i) cs"

fun ghosted :: "nat \<Rightarrow> field \<Rightarrow> bool" where
  "ghosted N (Scalar a) = (length a = N)"
| "ghosted N (Vector cs) = (\<forall>c \<in> set cs. length c = N)"

subsection \<open>Whole columns and rows of a two-dimensional array\<close>

text \<open>\<open>a[:, n]\<close> read, and \<open>a[:, n] = v\<close>.\<close>

definition py_col :: "fl list list \<Rightarrow> nat \<Rightarrow> error + fl list" where
  "py_col a n = (if n < length a then Inr (a ! n) else Inl IndexError)"

definition set_col :: "fl list list \<Rightarrow> nat \<Rightarrow> fl list \<Rightarrow> error + fl list list" where
  "set_col a n v =
     (if n < length a
      then bindE (set_slice 0 (int (length (a ! n))) v (a ! n)) (\<lambda>c. Inr (a[n := c]))
      else Inl IndexError)"

text \<open>\<open>a[i, :]\<close> read, and \<open>a[i, :] = v\<close>, where \<open>v\<close> has one number per column or one number.\<close>

definition py_row :: "fl list list \<Rightarrow> int \<Rightarrow> error + fl list" where
  "py_row a i = mapE (\<lambda>c. py_index c i) a"

definition row_index :: "fl list \<Rightarrow> int \<Rightarrow> nat" where
  "row_index c i = nat (if i < 0 then i + int (length c) else i)"

definition set_row :: "fl list list \<Rightarrow> int \<Rightarrow> fl list \<Rightarrow> error + fl list list" where
  "set_row a i v =
     bindE (py_row a i) (\<lambda>_.
       if length v = length a then Inr (map2 (\<lambda>c w. c[row_index c i := w]) a v)
       else if length v = 1 then Inr (map (\<lambda>c. c[row_index c i := hd v]) a)
       else Inl ValueError)"

subsection \<open>Conserved to primitive variables\<close>

definition cons_to_prim :: "grid \<Rightarrow> fl list list \<Rightarrow> error + fl list list" where
  "cons_to_prim g U =
     bindE (scratch_array g NVAR) (\<lambda>z.
     bindE (py_col U URHO) (\<lambda>rho.
     bindE (set_col (cols z) QRHO rho) (\<lambda>q.
     bindE (py_col U UMX) (\<lambda>mx.
     bindE (py_col U URHO) (\<lambda>rho'.
     bindE (np_bop fdiv mx rho') (\<lambda>u.
     bindE (set_col q QU u) (\<lambda>q.
     bindE (py_col U UENER) (\<lambda>e.
     bindE (py_col q QRHO) (\<lambda>qrho.
     bindE (py_col q QU) (\<lambda>qu.
     bindE (np_bop fmul (map (fmul (Fin 0.5)) qrho) (map (\<lambda>v. fmul v v) qu)) (\<lambda>ke.
     bindE (np_bop fsub e ke) (\<lambda>d.
     set_col q QP (map (\<lambda>v. fmul v (fsub gamma (Fin 1))) d)))))))))))))"

subsection \<open>Reconstruction\<close>

text \<open>The slope loop of \<open>states\<close>: the array \<open>dq\<close>.\<close>

definition slopes :: "grid \<Rightarrow> fl list list \<Rightarrow> error + fl list list" where
  "slopes g q =
     bindE (scratch_array g NVAR) (\<lambda>z.
       for_cols NVAR (\<lambda>n dqn.
         bindE (py_col q n) (\<lambda>qn.
         bindE (np_bop fsub (py_slice (ilo g) (ihi g + 3) qn)
                            (py_slice (ilo g - 2) (ihi g + 1) qn)) (\<lambda>d.
         set_slice (ilo g - 1) (ihi g + 2) (map (fmul (Fin 0.5)) d) dqn))) (cols z))"

text \<open>
  The two statements that fill \<open>q_l\<close> and \<open>q_r\<close> assign a block of rows of all
  \<open>NVAR\<close> columns at once; they act on each column alike.
\<close>

definition left_states :: "grid \<Rightarrow> fl list list \<Rightarrow> fl list list \<Rightarrow> error + fl list list" where
  "left_states g q dq =
     bindE (scratch_array g NVAR) (\<lambda>z.
       for_cols NVAR (\<lambda>n c.
         bindE (py_col q n) (\<lambda>qn.
         bindE (py_col dq n) (\<lambda>dqn.
         bindE (np_bop fadd (py_slice (ilo g - 1) (ihi g + 1) qn)
                  (map (fmul (Fin 0.5)) (py_slice (ilo g - 1) (ihi g + 1) dqn))) (\<lambda>v.
         set_slice (ilo g) (ihi g + 2) v c)))) (cols z))"

definition right_states :: "grid \<Rightarrow> fl list list \<Rightarrow> fl list list \<Rightarrow> error + fl list list" where
  "right_states g q dq =
     bindE (scratch_array g NVAR) (\<lambda>z.
       for_cols NVAR (\<lambda>n c.
         bindE (py_col q n) (\<lambda>qn.
         bindE (py_col dq n) (\<lambda>dqn.
         bindE (np_bop fsub (py_slice (ilo g) (ihi g + 2) qn)
                  (map (fmul (Fin 0.5)) (py_slice (ilo g) (ihi g + 2) dqn))) (\<lambda>v.
         set_slice (ilo g) (ihi g + 2) v c)))) (cols z))"

definition states :: "grid \<Rightarrow> fl list list \<Rightarrow> error + fl list list \<times> fl list list" where
  "states g U =
     bindE (cons_to_prim g U) (\<lambda>q.
     bindE (slopes g q) (\<lambda>dq.
     bindE (left_states g q dq) (\<lambda>q_l.
     bindE (right_states g q dq) (\<lambda>q_r. Inr (q_l, q_r)))))"

subsection \<open>Flux divergence\<close>

text \<open>
  The Riemann solver is imported from a module outside the notebook; it is a
  parameter \<open>rs\<close> here, taking the left state, the right state and \<open>gamma\<close> to a flux.
  \<open>riemann_fluxes\<close> is the first half of \<open>make_flux_divergence\<close>, up to the array
  \<open>flux\<close>; \<open>flux_difference\<close> is its second half, the array \<open>A\<close>.
\<close>

type_synonym riemann = "fl list \<Rightarrow> fl list \<Rightarrow> fl \<Rightarrow> fl list"

definition riemann_fluxes :: "riemann \<Rightarrow> grid \<Rightarrow> fl list list \<Rightarrow> error + fl list list" where
  "riemann_fluxes rs g U =
     bindE (states g U) (\<lambda>(q_l, q_r).
     bindE (scratch_array g NVAR) (\<lambda>z.
       foldE (\<lambda>flux i.
         bindE (py_row q_l i) (\<lambda>l.
         bindE (py_row q_r i) (\<lambda>r. set_row flux i (rs l r gamma))))
       (cols z) (py_range (ilo g) (ihi g + 2))))"

definition flux_difference :: "grid \<Rightarrow> fl list list \<Rightarrow> error + fl list list" where
  "flux_difference g flux =
     bindE (scratch_array g NVAR) (\<lambda>z.
       for_cols NVAR (\<lambda>n c.
         bindE (py_col flux n) (\<lambda>fn.
         bindE (np_bop fsub (py_slice (ilo g) (ihi g + 1) fn)
                            (py_slice (ilo g + 1) (ihi g + 2) fn)) (\<lambda>d.
         set_slice (ilo g) (ihi g + 1) (map (\<lambda>v. fdiv v (Fin (dx g))) d) c))) (cols z))"

definition make_flux_divergence :: "riemann \<Rightarrow> grid \<Rightarrow> fl list list \<Rightarrow> error + fl list list" where
  "make_flux_divergence rs g U = bindE (riemann_fluxes rs g U) (flux_difference g)"

subsection \<open>Timestep\<close>

definition timestep :: "grid \<Rightarrow> fl list list \<Rightarrow> error + fl" where
  "timestep g U =
     bindE (cons_to_prim g U) (\<lambda>q.
     bindE (scratch_array g 1) (\<lambda>z.
     bindE (py_col q QP) (\<lambda>p.
     bindE (py_col q QRHO) (\<lambda>rho.
     bindE (np_bop fdiv (map (fmul gamma) (py_slice (ilo g) (ihi g + 1) p))
                        (py_slice (ilo g) (ihi g + 1) rho)) (\<lambda>s.
     bindE (set_slice (ilo g) (ihi g + 1) (map fsqrt s) (vals z)) (\<lambda>c.
     bindE (py_col q QU) (\<lambda>u.
     bindE (np_bop fadd (map fabs (py_slice (ilo g) (ihi g + 1) u))
                        (py_slice (ilo g) (ihi g + 1) c)) (\<lambda>w.
     bindE (np_max w) (\<lambda>m. Inr (fdiv (fmul C (Fin (dx g))) m))))))))))"

subsection \<open>One step of the integrator\<close>

text \<open>
  The body of the loop of \<open>mol_solve\<close> once \<open>dt\<close> is chosen. \<open>rk2_predict\<close> runs from
  the first \<open>fill_BCs\<close> to the second and returns \<open>U\<close> and \<open>U_tmp\<close>, both with their
  ghost cells filled; \<open>rk2_step\<close> goes on with \<open>k2\<close> and the update of \<open>U\<close> in place.
\<close>

definition fill_state :: "grid \<Rightarrow> fl list list \<Rightarrow> error + fl list list" where
  "fill_state g U = bindE (fill_BCs g (Vector U)) (\<lambda>f. Inr (cols f))"

definition rk2_predict ::
  "riemann \<Rightarrow> grid \<Rightarrow> fl list list \<Rightarrow> fl \<Rightarrow> error + fl list list \<times> fl list list" where
  "rk2_predict rs g U dt =
     bindE (fill_state g U) (\<lambda>U.
     bindE (make_flux_divergence rs g U) (\<lambda>k1.
     bindE (scratch_array g NVAR) (\<lambda>z.
     bindE (for_cols NVAR (\<lambda>n c.
              bindE (py_col U n) (\<lambda>un.
              bindE (py_col k1 n) (\<lambda>kn.
              bindE (np_bop fadd un (map (fmul (fmul (Fin 0.5) dt)) kn)) (\<lambda>v.
              set_slice 0 (int (length c)) v c)))) (cols z)) (\<lambda>U_tmp.
     bindE (fill_state g U_tmp) (\<lambda>U_tmp. Inr (U, U_tmp))))))"

definition rk2_step :: "riemann \<Rightarrow> grid \<Rightarrow> fl list list \<Rightarrow> fl \<Rightarrow> error + fl list list" where
  "rk2_step rs g U dt =
     bindE (rk2_predict rs g U dt) (\<lambda>(U, U_tmp).
     bindE (make_flux_divergence rs g U_tmp) (\<lambda>k2.
       for_cols NVAR (\<lambda>n un.
         bindE (py_col k2 n) (\<lambda>kn.
         bindE (np_bop fadd un (map (fmul dt) kn)) (\<lambda>v.
         set_slice 0 (int (length un)) v un))) U))"

subsection \<open>Shapes\<close>

text \<open>A conserved state of the grid's shape: \<open>NVAR\<close> columns of \<open>nx + 2 ng\<close> cells.\<close>

definition state_shape :: "grid \<Rightarrow> fl list list \<Rightarrow> bool" where
  "state_shape g U =
     (length U = NVAR \<and> list_all (\<lambda>c. int (length c) = nx g + 2 * ng g) U)"

text \<open>
  A grid as the specification requires it: at least one interior cell and at least
  two ghost cells, with the index bounds the constructor derives.
\<close>

definition proper_grid :: "grid \<Rightarrow> bool" where
  "proper_grid g = (1 \<le> nx g \<and> 2 \<le> ng g \<and> ilo g = ng g \<and> ihi g = ng g + nx g - 1)"

text \<open>The array of \<open>N\<close> cells and \<open>NVAR\<close> components whose entry \<open>[i, n]\<close> is \<open>f i n\<close>.\<close>

definition table :: "nat \<Rightarrow> (nat \<Rightarrow> nat \<Rightarrow> fl) \<Rightarrow> fl list list" where
  "table N f = map (\<lambda>n. map (\<lambda>i. f i n) [0 ..< N]) [0 ..< NVAR]"

subsection \<open>The specification's formulas\<close>

text \<open>
  The primitive variables of one cell, as section 4.2 of the specification gives
  them: \<open>\<rho> = U.\<rho>\<close>, \<open>u = U.(\<rho>u)/U.\<rho>\<close>, \<open>p = (U.(\<rho>E) - 0.5 \<rho> u\<^sup>2) (\<gamma> - 1)\<close>.
\<close>

definition to_primitive :: "fl list list \<Rightarrow> nat \<Rightarrow> nat \<Rightarrow> fl" where
  "to_primitive U i n =
     (let rho = U ! URHO ! i; u = fdiv (U ! UMX ! i) rho
      in if n = QRHO then rho
         else if n = QU then u
         else fmul (fsub (U ! UENER ! i) (fmul (fmul (Fin 0.5) rho) (fmul u u)))
                   (fsub gamma (Fin 1)))"

text \<open>
  Section 4.3: the unlimited centered slope of cell \<open>i\<close>, and the left and right
  states at interface \<open>i\<close>, between the cells \<open>i - 1\<close> and \<open>i\<close>.
\<close>

definition slope_spec :: "fl list list \<Rightarrow> nat \<Rightarrow> nat \<Rightarrow> fl" where
  "slope_spec U i n = fmul (Fin 0.5) (fsub (to_primitive U (i + 1) n) (to_primitive U (i - 1) n))"

definition q_left_spec :: "fl list list \<Rightarrow> nat \<Rightarrow> nat \<Rightarrow> fl" where
  "q_left_spec U i n = fadd (to_primitive U (i - 1) n) (fmul (Fin 0.5) (slope_spec U (i - 1) n))"

definition q_right_spec :: "fl list list \<Rightarrow> nat \<Rightarrow> nat \<Rightarrow> fl" where
  "q_right_spec U i n = fsub (to_primitive U i n) (fmul (Fin 0.5) (slope_spec U i n))"

text \<open>
  Section 4.5: the flux at interface \<open>i\<close> is the Riemann solver's answer on the
  reconstructed pair, and the right-hand side of cell \<open>i\<close> is
  \<open>(flux[i] - flux[i+1]) / dx\<close>.
\<close>

definition flux_spec :: "riemann \<Rightarrow> fl list list \<Rightarrow> nat \<Rightarrow> nat \<Rightarrow> fl" where
  "flux_spec rs U i n =
     rs (map (q_left_spec U i) [0 ..< NVAR]) (map (q_right_spec U i) [0 ..< NVAR]) gamma ! n"

definition rhs_spec :: "riemann \<Rightarrow> grid \<Rightarrow> fl list list \<Rightarrow> nat \<Rightarrow> nat \<Rightarrow> fl" where
  "rhs_spec rs g U i n =
     fdiv (fsub (flux_spec rs U i n) (flux_spec rs U (i + 1) n)) (Fin (dx g))"

text \<open>
  Section 4.6: the sound speed \<open>c[i] = sqrt(\<gamma> p[i] / \<rho>[i])\<close> and the signal speed
  \<open>|u[i]| + c[i]\<close> of cell \<open>i\<close>.
\<close>

definition sound_speed :: "fl list list \<Rightarrow> nat \<Rightarrow> fl" where
  "sound_speed U i = fsqrt (fdiv (fmul gamma (to_primitive U i QP)) (to_primitive U i QRHO))"

definition signal_speed :: "fl list list \<Rightarrow> nat \<Rightarrow> fl" where
  "signal_speed U i = fadd (fabs (to_primitive U i QU)) (sound_speed U i)"

text \<open>
  Section 4.1: zero-gradient boundary fill. Every ghost cell on the low side takes the
  value of the first interior cell, every ghost cell on the high side the value of the
  last one.
\<close>

definition fill_spec :: "grid \<Rightarrow> fl list list \<Rightarrow> fl list list" where
  "fill_spec g U =
     table (nat (nx g + 2 * ng g))
       (\<lambda>i n. if i < nat (ilo g) then U ! n ! nat (ilo g)
               else if nat (ihi g) < i then U ! n ! nat (ihi g) else U ! n ! i)"

text \<open>Section 4.5: the right-hand side, zero outside the interior.\<close>

definition divergence_spec :: "riemann \<Rightarrow> grid \<Rightarrow> fl list list \<Rightarrow> fl list list" where
  "divergence_spec rs g U =
     table (nat (nx g + 2 * ng g))
       (\<lambda>i n. if ilo g \<le> int i \<and> int i < ihi g + 1 then rhs_spec rs g U i n else Fin 0)"

text \<open>\<open>U + a k\<close> over the full domain, ghost cells included.\<close>

definition axpy :: "grid \<Rightarrow> fl \<Rightarrow> fl list list \<Rightarrow> fl list list \<Rightarrow> fl list list" where
  "axpy g a k U =
     table (nat (nx g + 2 * ng g)) (\<lambda>i n. fadd (U ! n ! i) (fmul a (k ! n ! i)))"

text \<open>A Riemann solver that keeps its interface: it returns a flux of \<open>NVAR\<close> components.\<close>

definition flux_solver :: "riemann \<Rightarrow> bool" where
  "flux_solver rs = (\<forall>l r. length (rs l r gamma) = NVAR)"

text \<open>Row \<open>i\<close> of a two-dimensional array, \<open>a[i, :]\<close>, for an index in range.\<close>

definition row_at :: "fl list list \<Rightarrow> int \<Rightarrow> fl list" where
  "row_at a i = map (\<lambda>c. c ! nat i) a"

text \<open>
  The primitive variables of the finite conserved values \<open>(\<rho>, \<rho>u, \<rho>E)\<close> as real
  numbers, for a density that is not zero.
\<close>

definition prim_real :: "real \<Rightarrow> real \<Rightarrow> real \<Rightarrow> nat \<Rightarrow> real" where
  "prim_real rho mx e n =
     (if n = QRHO then rho
      else if n = QU then mx / rho
      else (e - 0.5 * rho * (mx / rho)\<^sup>2) * (1.4 - 1))"

subsection \<open>Examples\<close>

text \<open>The grid \<open>FVGrid(2, 2)\<close> builds, with the default bounds 0 and 1.\<close>

definition example_grid :: grid where
  "example_grid = \<lparr> xmin = 0, xmax = 1, ng = 2, nx = 2, ilo = 2, ihi = 3, dx = 1 / 2,
                      xcoord = [-3/4, -1/4, 1/4, 3/4, 5/4, 7/4] \<rparr>"

text \<open>
  Two conserved states on that grid: the two constant states of Sod's problem, as
  \<open>mol_solve\<close> sets them, and a uniform state.
\<close>

definition example_state :: "fl list list" where
  "example_state =
     [[Fin 1, Fin 1, Fin 1, Fin (1/8), Fin (1/8), Fin (1/8)],
      [Fin 0, Fin 0, Fin 0, Fin 0, Fin 0, Fin 0],
      [Fin (5/2), Fin (5/2), Fin (5/2), Fin (1/4), Fin (1/4), Fin (1/4)]]"

definition uniform_state :: "fl list list" where
  "uniform_state =
     [[Fin 1, Fin 1, Fin 1, Fin 1, Fin 1, Fin 1],
      [Fin 2, Fin 2, Fin 2, Fin 2, Fin 2, Fin 2],
      [Fin 5, Fin 5, Fin 5, Fin 5, Fin 5, Fin 5]]"

text \<open>The state that \<open>scratch_array\<close> returns on that grid: zero in every cell.\<close>

definition zero_state :: "fl list list" where
  "zero_state =
     [[Fin 0, Fin 0, Fin 0, Fin 0, Fin 0, Fin 0],
      [Fin 0, Fin 0, Fin 0, Fin 0, Fin 0, Fin 0],
      [Fin 0, Fin 0, Fin 0, Fin 0, Fin 0, Fin 0]]"

text \<open>
  A stand-in for the imported solver in the examples: the mean of the physical
  fluxes \<open>(\<rho>u, \<rho>u\<^sup>2 + p, u (\<rho>E + p))\<close> of the two states.
\<close>

definition euler_flux :: "fl list \<Rightarrow> fl \<Rightarrow> fl list" where
  "euler_flux q gm =
     (let rho = q ! QRHO; u = q ! QU; p = q ! QP;
          e = fadd (fdiv p (fsub gm (Fin 1))) (fmul (fmul (Fin 0.5) rho) (fmul u u))
      in [fmul rho u, fadd (fmul (fmul rho u) u) p, fmul u (fadd e p)])"

definition central_riemann :: riemann where
  "central_riemann l r gm =
     map2 (\<lambda>a b. fmul (Fin 0.5) (fadd a b)) (euler_flux l gm) (euler_flux r gm)"

text \<open>
  A state that is not physical: cell 3 has a negative pressure (its kinetic energy
  exceeds its total energy), cell 4 a negative density and cell 5 no density at all.
  Cell 2 is physical, with \<open>\<rho> = 1\<close>, \<open>u = 0\<close> and \<open>p = 1\<close>.
\<close>

definition unphysical_state :: "fl list list" where
  "unphysical_state =
     [[Fin 1, Fin 1, Fin 1, Fin 1, Fin (-1), Fin 0],
      [Fin 0, Fin 0, Fin 0, Fin 2, Fin 0, Fin 0],
      [Fin (5/2), Fin (5/2), Fin (5/2), Fin 1, Fin (5/2), Fin (5/2)]]"



section \<open>Auxiliary facts\<close>

lemma FVGrid_fields:
  assumes "FVGrid n_x n_g x_min x_max = Inr g"
  shows "nx g = n_x" "ng g = n_g" "ilo g = n_g" "ihi g = n_g + n_x - 1"
    "dx g = (x_max - x_min) / real_of_int n_x" "n_x \<noteq> 0"
  using assms by (auto simp: FVGrid_def Let_def split: if_splits)

lemma FVGrid_example: "FVGrid 2 2 0 1 = Inr example_grid"
  by (simp add: FVGrid_def float_of_int_overflows_def example_grid_def upt_rec)

lemma bindE_Inr [simp]: "bindE (Inr v) f = f v"
  by (simp add: bindE_def)

lemma bindE_Inl [simp]: "bindE (Inl e) f = Inl e"
  by (simp add: bindE_def)

lemma length_fill_slice [simp]: "length (fill_slice lo hi v a) = length a"
  by (auto simp: fill_slice_def Let_def clip_index_def)

lemma nth_fill_slice:
  assumes "i < length a"
  shows "fill_slice lo hi v a ! i =
    (if clip_index (length a) lo \<le> i \<and> i < clip_index (length a) hi then v else a ! i)"
proof -
  have le: "clip_index (length a) lo \<le> length a" "clip_index (length a) hi \<le> length a"
    by (auto simp: clip_index_def)
  show ?thesis using assms le
    by (auto simp: fill_slice_def Let_def nth_append min_def)
qed

lemma py_index_ok: "0 \<le> i \<Longrightarrow> i < int (length a) \<Longrightarrow> py_index a i = Inr (a ! nat i)"
  by (simp add: py_index_def Let_def)

lemma fill_col_ok:
  assumes "0 \<le> ilo g" "ilo g \<le> ihi g" "ihi g < int (length a)"
  shows "fill_col g a = Inr (map (\<lambda>i. if i < nat (ilo g) then a ! nat (ilo g)
                                     else if nat (ihi g) < i then a ! nat (ihi g) else a ! i)
                               [0 ..< length a])"
proof -
  let ?a1 = "fill_slice 0 (ilo g) (a ! nat (ilo g)) a"
  have i1: "py_index a (ilo g) = Inr (a ! nat (ilo g))"
    using assms by (simp add: py_index_ok)
  have i2: "py_index ?a1 (ihi g) = Inr (a ! nat (ihi g))"
    using assms by (simp add: py_index_ok nth_fill_slice clip_index_def)
  have "fill_col g a = Inr (fill_from (ihi g + 1) (a ! nat (ihi g)) ?a1)"
    by (simp add: fill_col_def i1 i2 Let_def)
  also have "fill_from (ihi g + 1) (a ! nat (ihi g)) ?a1 = map (\<lambda>i. if i < nat (ilo g) then a ! nat (ilo g)
                                     else if nat (ihi g) < i then a ! nat (ihi g) else a ! i)
                               [0 ..< length a]"
    using assms
    by (intro nth_equalityI) (auto simp: fill_from_def nth_fill_slice clip_index_def)
  finally show ?thesis .
qed


lemma for_cols_aux:
  assumes F: "\<forall>n<m. F n (a ! n) = Inr (h n)" and m: "m \<le> length a"
  shows "k \<le> m \<Longrightarrow>
    foldE (\<lambda>b n. if n < length b then bindE (F n (b ! n)) (\<lambda>c. Inr (b[n := c]))
                  else Inl IndexError) (map h [0 ..< k] @ drop k a) [k ..< m]
    = Inr (map h [0 ..< m] @ drop m a)"
proof (induction "m - k" arbitrary: k)
  case 0
  then show ?case by simp
next
  case (Suc d)
  then have km: "k < m" by simp
  have upd: "(map h [0 ..< k] @ drop k a)[k := h k] = map h [0 ..< Suc k] @ drop (Suc k) a"
    using km m by (intro nth_equalityI) (auto simp: nth_append nth_list_update less_Suc_eq)
  have nthk: "(map h [0 ..< k] @ drop k a) ! k = a ! k"
    using km m by (simp add: nth_append)
  have "d = m - Suc k" "Suc k \<le> m" using Suc.hyps km by auto
  from Suc.hyps(1)[OF this]
  show ?case using km m F nthk upd
    by (simp add: upt_conv_Cons del: upt_Suc)
qed

lemma for_cols_ok:
  assumes "\<forall>n<m. F n (a ! n) = Inr (h n)" "m \<le> length a"
  shows "for_cols m F a = Inr (map h [0 ..< m] @ drop m a)"
  using for_cols_aux[of m F a h 0] assms by (simp add: for_cols_def)

lemma fill_col_same:
  assumes "0 \<le> ilo g" "ilo g \<le> ihi g" "ihi g < int (length a)"
  shows "\<exists>a'. fill_col g a = Inr a' \<and> length a' = length a \<and>
           (\<forall>i. ilo g \<le> i \<and> i \<le> ihi g \<longrightarrow> a' ! nat i = a ! nat i)"
  using assms by (auto simp: fill_col_ok)

lemma length_py_slice:
  assumes "0 \<le> lo" "lo \<le> hi" "hi \<le> int (length a)"
  shows "length (py_slice lo hi a) = nat (hi - lo)"
  using assms by (auto simp: py_slice_def Let_def clip_index_def)

lemma nth_py_slice:
  assumes "0 \<le> lo" "lo \<le> hi" "hi \<le> int (length a)" "k < nat (hi - lo)"
  shows "py_slice lo hi a ! k = a ! (nat lo + k)"
  using assms by (auto simp: py_slice_def Let_def clip_index_def)

lemma splice_tabulate:
  assumes "s \<le> e" "e \<le> length a" "length vs = e - s"
  shows "take s a @ vs @ drop e a =
    map (\<lambda>i. if s \<le> i \<and> i < e then vs ! (i - s) else a ! i) [0 ..< length a]"
proof (intro nth_equalityI)
  show "length (take s a @ vs @ drop e a) =
    length (map (\<lambda>i. if s \<le> i \<and> i < e then vs ! (i - s) else a ! i) [0 ..< length a])"
    using assms by simp
next
  fix i assume "i < length (take s a @ vs @ drop e a)"
  then have i: "i < length a" using assms by simp
  consider "i < s" | "s \<le> i" "i < e" | "e \<le> i" by linarith
  then show "(take s a @ vs @ drop e a) ! i =
    map (\<lambda>i. if s \<le> i \<and> i < e then vs ! (i - s) else a ! i) [0 ..< length a] ! i"
  proof cases
    case 1
    then show ?thesis using assms i by (simp add: nth_append)
  next
    case 2
    then have "i - s < e - s" "\<not> i < s" by linarith+
    then show ?thesis using 2 assms i by (simp add: nth_append)
  next
    case 3
    then have "i - s - (e - s) = i - e" "e + (i - e) = i" "\<not> i - s < e - s" "\<not> i < s" "\<not> i < e"
      using assms by auto
    then show ?thesis using 3 assms i by (simp add: nth_append)
  qed
qed

lemma set_slice_ok:
  assumes "0 \<le> lo" "lo \<le> hi" "hi \<le> int (length a)" "length vs = nat (hi - lo)"
  shows "set_slice lo hi vs a =
    Inr (map (\<lambda>i. if nat lo \<le> i \<and> i < nat hi then vs ! (i - nat lo) else a ! i) [0 ..< length a])"
proof -
  have c: "clip_index (length a) lo = nat lo" "clip_index (length a) hi = nat hi"
    using assms by (auto simp: clip_index_def)
  have k: "nat hi - nat lo = nat (hi - lo)" using assms by linarith
  have b: "nat lo \<le> nat hi" "nat hi \<le> length a" using assms by linarith+
  show ?thesis
  proof (cases "nat (hi - lo) = 0")
    case True
    then have "nat hi \<le> nat lo" using assms by linarith
    then have "map (\<lambda>i. if nat lo \<le> i \<and> i < nat hi then vs ! (i - nat lo) else a ! i) [0 ..< length a] = a"
      by (intro nth_equalityI) auto
    then show ?thesis using assms True
      by (simp add: set_slice_def Let_def c k)
  next
    case False
    have "length vs = nat hi - nat lo" using assms k by simp
    from splice_tabulate[OF b this] show ?thesis using assms False
      by (simp add: set_slice_def Let_def c k)
  qed
qed

lemma np_bop_ok:
  assumes "length a = length b"
  shows "np_bop f a b = Inr (map (\<lambda>k. f (a ! k) (b ! k)) [0 ..< length a])"
  using assms by (auto simp: np_bop_def intro!: nth_equalityI)

lemma set_col_full:
  assumes "n < length a" "length v = length (a ! n)"
  shows "set_col a n v = Inr (a[n := v])"
proof -
  have "set_slice 0 (int (length (a ! n))) v (a ! n) = Inr v"
    using assms
    by (subst set_slice_ok) (auto intro!: nth_equalityI)
  then show ?thesis using assms by (simp add: set_col_def bindE_def)
qed


lemma nth_table: "n < NVAR \<Longrightarrow> i < N \<Longrightarrow> table N f ! n ! i = f i n"
  by (simp add: table_def)

lemma length_table [simp]: "length (table N f) = NVAR"
  by (simp add: table_def)

lemma table_col: "n < NVAR \<Longrightarrow> table N f ! n = map (\<lambda>i. f i n) [0 ..< N]"
  by (simp add: table_def)

lemma upt_3: "[0 ..< 3] = [0, 1, 2]"
  by (simp add: upt_rec)

lemma table_3:
  "table N f = [map (\<lambda>i. f i 0) [0 ..< N], map (\<lambda>i. f i 1) [0 ..< N], map (\<lambda>i. f i 2) [0 ..< N]]"
  by (simp add: table_def NVAR_def upt_3)

lemma table_cong: "(\<And>i n. i < N \<Longrightarrow> n < NVAR \<Longrightarrow> f i n = h i n) \<Longrightarrow> table N f = table N h"
  by (simp add: table_def)

lemma state_shape_table:
  assumes "state_shape g U" "0 \<le> nx g + 2 * ng g"
  shows "U = table (nat (nx g + 2 * ng g)) (\<lambda>i n. U ! n ! i)"
  using assms
  by (auto simp: state_shape_def table_def list_all_length intro!: nth_equalityI)

lemma scratch_vec:
  assumes "0 \<le> nx g + 2 * ng g"
  shows "scratch_array g NVAR = Inr (Vector (table (nat (nx g + 2 * ng g)) (\<lambda>i n. Fin 0)))"
  using assms by (auto simp: scratch_array_def NVAR_def table_def intro!: nth_equalityI)

lemma scratch_scalar:
  assumes "0 \<le> nx g + 2 * ng g"
  shows "scratch_array g 1 = Inr (Scalar (map (\<lambda>i. Fin 0) [0 ..< nat (nx g + 2 * ng g)]))"
  using assms by (auto simp: scratch_array_def intro!: nth_equalityI)

lemma py_col_table: "n < NVAR \<Longrightarrow> py_col (table N f) n = Inr (map (\<lambda>i. f i n) [0 ..< N])"
  by (simp add: py_col_def table_def)

lemma cons_to_prim_ok:
  assumes "state_shape g U" "0 \<le> nx g + 2 * ng g"
  shows "cons_to_prim g U = Inr (table (nat (nx g + 2 * ng g)) (to_primitive U))"
proof -
  let ?N = "nat (nx g + 2 * ng g)"
  obtain r m e where U: "U = [r, m, e]" and len: "length r = ?N" "length m = ?N" "length e = ?N"
    using assms
    by (cases U; cases "tl U"; cases "tl (tl U)"; cases "tl (tl (tl U))")
       (auto simp: state_shape_def NVAR_def)
  let ?u = "map (\<lambda>k. fdiv (m ! k) (r ! k)) [0 ..< ?N]"
  let ?z = "replicate ?N (Fin 0)"
  have s: "scratch_array g NVAR = Inr (Vector [?z, ?z, ?z])"
    using assms by (simp add: scratch_array_def NVAR_def numeral_3_eq_3)
  have 1: "set_col [?z, ?z, ?z] QRHO r = Inr [r, ?z, ?z]"
    by (subst set_col_full) (simp_all add: QRHO_def len)
  have 2: "np_bop fdiv m r = Inr ?u"
    by (subst np_bop_ok) (simp_all add: len)
  have 3: "set_col [r, ?z, ?z] QU ?u = Inr [r, ?u, ?z]"
    by (subst set_col_full) (simp_all add: QU_def len)
  let ?ke = "map (\<lambda>k. fmul (fmul (Fin 0.5) (r ! k)) (fmul (?u ! k) (?u ! k))) [0 ..< ?N]"
  have 4: "np_bop fmul (map (fmul (Fin 0.5)) r) (map (\<lambda>v. fmul v v) ?u) = Inr ?ke"
    by (subst np_bop_ok) (simp_all add: len)
  let ?d = "map (\<lambda>k. fsub (e ! k) (?ke ! k)) [0 ..< ?N]"
  have 5: "np_bop fsub e ?ke = Inr ?d"
    by (subst np_bop_ok) (simp_all add: len)
  let ?p = "map (\<lambda>v. fmul v (fsub gamma (Fin 1))) ?d"
  have 6: "set_col [r, ?u, ?z] QP ?p = Inr [r, ?u, ?p]"
    by (subst set_col_full) (simp_all add: QP_def len)
  have c: "py_col U URHO = Inr r" "py_col U UMX = Inr m" "py_col U UENER = Inr e"
    "py_col [r, ?u, ?z] QRHO = Inr r" "py_col [r, ?u, ?z] QU = Inr ?u"
    by (simp_all add: py_col_def U URHO_def UMX_def UENER_def QRHO_def QU_def)
  have "cons_to_prim g U = Inr [r, ?u, ?p]"
    by (simp only: cons_to_prim_def s c 1 2 3 4 5 6 bindE_Inr cols.simps)
  also have "[r, ?u, ?p] = table ?N (to_primitive U)"
  proof -
    have "r = map (\<lambda>i. to_primitive U i 0) [0 ..< ?N]"
      using len by (intro nth_equalityI) (simp_all add: to_primitive_def U URHO_def QRHO_def Let_def)
    moreover have "?u = map (\<lambda>i. to_primitive U i 1) [0 ..< ?N]"
      by (simp add: to_primitive_def U URHO_def UMX_def QRHO_def QU_def Let_def)
    moreover have "?p = map (\<lambda>i. to_primitive U i 2) [0 ..< ?N]"
      by (simp add: to_primitive_def U URHO_def UMX_def UENER_def QRHO_def QU_def Let_def)
    ultimately show ?thesis by (simp only: table_3)
  qed
  finally show ?thesis .
qed

lemma bop_set_slice_map:
  assumes "0 \<le> lo" "lo \<le> hi" "hi \<le> int (length z)"
    "length A = nat (hi - lo)" "length B = nat (hi - lo)"
  shows "bindE (np_bop f A B) (\<lambda>d. set_slice lo hi (map p d) z) =
    Inr (map (\<lambda>i. if nat lo \<le> i \<and> i < nat hi
                    then p (f (A ! (i - nat lo)) (B ! (i - nat lo))) else z ! i) [0 ..< length z])"
proof -
  let ?d = "map (\<lambda>k. f (A ! k) (B ! k)) [0 ..< length A]"
  have 1: "np_bop f A B = Inr ?d" using assms by (simp add: np_bop_ok)
  have 2: "set_slice lo hi (map p ?d) z =
    Inr (map (\<lambda>i. if nat lo \<le> i \<and> i < nat hi then map p ?d ! (i - nat lo) else z ! i) [0 ..< length z])"
    using assms by (intro set_slice_ok) simp_all
  have 3: "map (\<lambda>i. if nat lo \<le> i \<and> i < nat hi then map p ?d ! (i - nat lo) else z ! i) [0 ..< length z]
    = map (\<lambda>i. if nat lo \<le> i \<and> i < nat hi
                    then p (f (A ! (i - nat lo)) (B ! (i - nat lo))) else z ! i) [0 ..< length z]"
  proof (rule map_cong[OF refl])
    fix i assume "i \<in> set [0 ..< length z]"
    show "(if nat lo \<le> i \<and> i < nat hi then map p ?d ! (i - nat lo) else z ! i) =
      (if nat lo \<le> i \<and> i < nat hi
                    then p (f (A ! (i - nat lo)) (B ! (i - nat lo))) else z ! i)"
    proof (rule if_cong[OF refl _ refl])
      assume "nat lo \<le> i \<and> i < nat hi"
      then have "i - nat lo < length A" using assms by linarith
      then show "map p ?d ! (i - nat lo) = p (f (A ! (i - nat lo)) (B ! (i - nat lo)))"
        by simp
    qed
  qed
  show ?thesis by (simp only: 1 2 3 bindE_Inr)
qed

lemma for_cols_table:
  assumes "\<And>n. n < NVAR \<Longrightarrow> F n (map (\<lambda>i. Z i n) [0 ..< N]) = Inr (map (\<lambda>i. R i n) [0 ..< N])"
  shows "for_cols NVAR F (table N Z) = Inr (table N R)"
proof -
  have "for_cols NVAR F (table N Z) =
      Inr (map (\<lambda>n. map (\<lambda>i. R i n) [0 ..< N]) [0 ..< NVAR] @ drop NVAR (table N Z))"
    by (rule for_cols_ok) (simp_all add: assms table_col)
  then show ?thesis by (simp add: table_def)
qed

lemma proper_grid_nat:
  assumes "proper_grid g"
  shows "ilo g = int (nat (ilo g))" "ihi g = int (nat (ihi g))"
    "nx g + 2 * ng g = int (nat (nx g + 2 * ng g))"
    "2 \<le> nat (ilo g)" "nat (ilo g) \<le> nat (ihi g)"
    "nat (ihi g) + nat (ilo g) + 1 = nat (nx g + 2 * ng g)"
  using assms by (auto simp: proper_grid_def)

lemma slopes_col:
  fixes L H N :: nat
  assumes "2 \<le> L" "L \<le> H" "H + L + 1 = N"
  shows "bindE (np_bop fsub (py_slice (int L) (int H + 3) (map (\<lambda>i. Q i) [0 ..< N]))
                            (py_slice (int L - 2) (int H + 1) (map (\<lambda>i. Q i) [0 ..< N])))
           (\<lambda>d. set_slice (int L - 1) (int H + 2) (map (fmul (Fin 0.5)) d) (map (\<lambda>i. Fin 0) [0 ..< N]))
    = Inr (map (\<lambda>i. if L - 1 \<le> i \<and> i \<le> H + 1
                     then fmul (Fin 0.5) (fsub (Q (i + 1)) (Q (i - 1))) else Fin 0) [0 ..< N])"
proof -
  let ?q = "map (\<lambda>i. Q i) [0 ..< N]"
  let ?A = "py_slice (int L) (int H + 3) ?q"
  let ?B = "py_slice (int L - 2) (int H + 1) ?q"
  have lA: "length ?A = nat (int H + 2 - (int L - 1))"
    using assms by (subst length_py_slice) auto
  have lB: "length ?B = nat (int H + 2 - (int L - 1))"
    using assms by (subst length_py_slice) auto
  have "bindE (np_bop fsub ?A ?B)
           (\<lambda>d. set_slice (int L - 1) (int H + 2) (map (fmul (Fin 0.5)) d) (map (\<lambda>i. Fin 0) [0 ..< N]))
    = Inr (map (\<lambda>i. if nat (int L - 1) \<le> i \<and> i < nat (int H + 2)
                    then fmul (Fin 0.5) (fsub (?A ! (i - nat (int L - 1))) (?B ! (i - nat (int L - 1))))
                    else map (\<lambda>i. Fin 0) [0 ..< N] ! i) [0 ..< length (map (\<lambda>i. Fin 0) [0 ..< N])])"
    using assms by (intro bop_set_slice_map lA lB) auto
  also have "map (\<lambda>i. if nat (int L - 1) \<le> i \<and> i < nat (int H + 2)
                    then fmul (Fin 0.5) (fsub (?A ! (i - nat (int L - 1))) (?B ! (i - nat (int L - 1))))
                    else map (\<lambda>i. Fin 0) [0 ..< N] ! i) [0 ..< length (map (\<lambda>i. Fin 0) [0 ..< N])]
      = map (\<lambda>i. if L - 1 \<le> i \<and> i \<le> H + 1
                     then fmul (Fin 0.5) (fsub (Q (i + 1)) (Q (i - 1))) else Fin 0) [0 ..< N]"
  proof (rule map_cong)
    show "[0 ..< length (map (\<lambda>i. Fin 0) [0 ..< N])] = [0 ..< N]" by simp
  next
    fix i assume "i \<in> set [0 ..< N]"
    then have iN: "i < N" by simp
    show "(if nat (int L - 1) \<le> i \<and> i < nat (int H + 2)
                    then fmul (Fin 0.5) (fsub (?A ! (i - nat (int L - 1))) (?B ! (i - nat (int L - 1))))
                    else map (\<lambda>i. Fin 0) [0 ..< N] ! i)
       = (if L - 1 \<le> i \<and> i \<le> H + 1
                     then fmul (Fin 0.5) (fsub (Q (i + 1)) (Q (i - 1))) else Fin 0)"
    proof (rule if_cong)
      show "(nat (int L - 1) \<le> i \<and> i < nat (int H + 2)) = (L - 1 \<le> i \<and> i \<le> H + 1)"
        using assms by auto
    next
      assume c: "L - 1 \<le> i \<and> i \<le> H + 1"
      have k: "i - nat (int L - 1) < nat (int H + 3 - int L)" "i - nat (int L - 1) < nat (int H + 1 - (int L - 2))"
        using c assms by linarith+
      have a: "?A ! (i - nat (int L - 1)) = ?q ! (nat (int L) + (i - nat (int L - 1)))"
        using assms k by (intro nth_py_slice) auto
      have b: "?B ! (i - nat (int L - 1)) = ?q ! (nat (int L - 2) + (i - nat (int L - 1)))"
        using assms k by (intro nth_py_slice) auto
      have e: "nat (int L) + (i - nat (int L - 1)) = i + 1" "nat (int L - 2) + (i - nat (int L - 1)) = i - 1"
        "i + 1 < N" "i - 1 < N"
        using c assms by linarith+
      show "fmul (Fin 0.5) (fsub (?A ! (i - nat (int L - 1))) (?B ! (i - nat (int L - 1))))
        = fmul (Fin 0.5) (fsub (Q (i + 1)) (Q (i - 1)))"
        unfolding a b using e by simp
    next
      show "map (\<lambda>i. Fin 0) [0 ..< N] ! i = Fin 0" using iN by simp
    qed
  qed
  finally show ?thesis .
qed

lemma slopes_ok:
  assumes "proper_grid g"
  shows "slopes g (table (nat (nx g + 2 * ng g)) Q) =
    Inr (table (nat (nx g + 2 * ng g))
          (\<lambda>i n. if nat (ilo g) - 1 \<le> i \<and> i \<le> nat (ihi g) + 1
                  then fmul (Fin 0.5) (fsub (Q (i + 1) n) (Q (i - 1) n)) else Fin 0))"
proof -
  let ?N = "nat (nx g + 2 * ng g)"
  note pg = proper_grid_nat[OF assms]
  have s: "scratch_array g NVAR = Inr (Vector (table ?N (\<lambda>i n. Fin 0)))"
    using pg by (intro scratch_vec) simp
  have "for_cols NVAR (\<lambda>n dqn.
         bindE (py_col (table ?N Q) n) (\<lambda>qn.
         bindE (np_bop fsub (py_slice (ilo g) (ihi g + 3) qn)
                            (py_slice (ilo g - 2) (ihi g + 1) qn)) (\<lambda>d.
         set_slice (ilo g - 1) (ihi g + 2) (map (fmul (Fin 0.5)) d) dqn))) (table ?N (\<lambda>i n. Fin 0))
     = Inr (table ?N (\<lambda>i n. if nat (ilo g) - 1 \<le> i \<and> i \<le> nat (ihi g) + 1
                  then fmul (Fin 0.5) (fsub (Q (i + 1) n) (Q (i - 1) n)) else Fin 0))"
  proof (rule for_cols_table)
    fix n assume n: "n < NVAR"
    show "bindE (py_col (table ?N Q) n) (\<lambda>qn.
         bindE (np_bop fsub (py_slice (ilo g) (ihi g + 3) qn)
                            (py_slice (ilo g - 2) (ihi g + 1) qn)) (\<lambda>d.
         set_slice (ilo g - 1) (ihi g + 2) (map (fmul (Fin 0.5)) d) (map (\<lambda>i. Fin 0) [0 ..< ?N])))
      = Inr (map (\<lambda>i. if nat (ilo g) - 1 \<le> i \<and> i \<le> nat (ihi g) + 1
                  then fmul (Fin 0.5) (fsub (Q (i + 1) n) (Q (i - 1) n)) else Fin 0) [0 ..< ?N])"
      unfolding py_col_table[OF n] bindE_Inr
      by (subst pg(1), subst pg(2), subst pg(1), subst pg(2), subst pg(1), subst pg(2))
         (rule slopes_col[OF pg(4) pg(5) pg(6)])
  qed
  then show ?thesis by (simp only: slopes_def s bindE_Inr cols.simps)
qed

lemma stencil:
  fixes lo hi a1 b1 a2 b2 oa ob :: int
  assumes "0 \<le> lo" "lo \<le> hi" "hi \<le> int N"
    "a1 = lo + oa" "b1 = hi + oa" "0 \<le> a1" "b1 \<le> int N"
    "a2 = lo + ob" "b2 = hi + ob" "0 \<le> a2" "b2 \<le> int N"
  shows "bindE (np_bop f (map p1 (py_slice a1 b1 (map X [0 ..< N])))
                        (map p2 (py_slice a2 b2 (map Y [0 ..< N]))))
           (\<lambda>d. set_slice lo hi (map p3 d) (map Z [0 ..< N]))
    = Inr (map (\<lambda>i. if lo \<le> int i \<and> int i < hi
                     then p3 (f (p1 (X (nat (int i + oa)))) (p2 (Y (nat (int i + ob)))))
                     else Z i) [0 ..< N])"
proof -
  let ?x = "map X [0 ..< N]" and ?y = "map Y [0 ..< N]" and ?z = "map Z [0 ..< N]"
  let ?A = "map p1 (py_slice a1 b1 ?x)"
  let ?B = "map p2 (py_slice a2 b2 ?y)"
  have lA: "length ?A = nat (hi - lo)"
    using assms by (simp add: length_py_slice)
  have lB: "length ?B = nat (hi - lo)"
    using assms by (simp add: length_py_slice)
  have z: "hi \<le> int (length ?z)" using assms by simp
  have "bindE (np_bop f ?A ?B) (\<lambda>d. set_slice lo hi (map p3 d) ?z)
    = Inr (map (\<lambda>i. if nat lo \<le> i \<and> i < nat hi
                    then p3 (f (?A ! (i - nat lo)) (?B ! (i - nat lo)))
                    else ?z ! i) [0 ..< length ?z])"
    by (rule bop_set_slice_map[OF assms(1,2) z lA lB])
  also have "map (\<lambda>i. if nat lo \<le> i \<and> i < nat hi
                    then p3 (f (?A ! (i - nat lo)) (?B ! (i - nat lo)))
                    else ?z ! i) [0 ..< length ?z]
     = map (\<lambda>i. if lo \<le> int i \<and> int i < hi
                     then p3 (f (p1 (X (nat (int i + oa)))) (p2 (Y (nat (int i + ob)))))
                     else Z i) [0 ..< N]"
  proof (rule map_cong)
    show "[0 ..< length ?z] = [0 ..< N]" by simp
  next
    fix i assume "i \<in> set [0 ..< N]"
    then have iN: "i < N" by simp
    show "(if nat lo \<le> i \<and> i < nat hi
                    then p3 (f (?A ! (i - nat lo)) (?B ! (i - nat lo)))
                    else ?z ! i)
      = (if lo \<le> int i \<and> int i < hi
                     then p3 (f (p1 (X (nat (int i + oa)))) (p2 (Y (nat (int i + ob)))))
                     else Z i)"
    proof (rule if_cong)
      show "(nat lo \<le> i \<and> i < nat hi) = (lo \<le> int i \<and> int i < hi)"
        using assms by auto
    next
      assume c: "lo \<le> int i \<and> int i < hi"
      have k: "i - nat lo < nat (b1 - a1)" "i - nat lo < nat (b2 - a2)"
        using c assms by linarith+
      have l: "length (py_slice a1 b1 ?x) = nat (b1 - a1)" "length (py_slice a2 b2 ?y) = nat (b2 - a2)"
        using assms by (simp_all add: length_py_slice)
      have a: "py_slice a1 b1 ?x ! (i - nat lo) = ?x ! (nat a1 + (i - nat lo))"
        using assms k by (intro nth_py_slice) auto
      have b: "py_slice a2 b2 ?y ! (i - nat lo) = ?y ! (nat a2 + (i - nat lo))"
        using assms k by (intro nth_py_slice) auto
      have e: "nat a1 + (i - nat lo) = nat (int i + oa)"
        "nat a2 + (i - nat lo) = nat (int i + ob)"
        "nat (int i + oa) < N" "nat (int i + ob) < N"
        using c assms by linarith+
      show "p3 (f (?A ! (i - nat lo)) (?B ! (i - nat lo)))
        = p3 (f (p1 (X (nat (int i + oa)))) (p2 (Y (nat (int i + ob)))))"
        using k by (simp add: l a b e)
    next
      show "?z ! i = Z i" using iN by simp
    qed
  qed
  finally show ?thesis .
qed

lemma stencil_plain:
  fixes lo hi a1 b1 a2 b2 oa ob :: int
  assumes "0 \<le> lo" "lo \<le> hi" "hi \<le> int N"
    "a1 = lo + oa" "b1 = hi + oa" "0 \<le> a1" "b1 \<le> int N"
    "a2 = lo + ob" "b2 = hi + ob" "0 \<le> a2" "b2 \<le> int N"
  shows "bindE (np_bop f (py_slice a1 b1 (map X [0 ..< N])) (py_slice a2 b2 (map Y [0 ..< N])))
           (\<lambda>d. set_slice lo hi (map p3 d) (map Z [0 ..< N]))
    = Inr (map (\<lambda>i. if lo \<le> int i \<and> int i < hi
                     then p3 (f (X (nat (int i + oa))) (Y (nat (int i + ob))))
                     else Z i) [0 ..< N])"
  using stencil[OF assms, of f "\<lambda>v. v" X "\<lambda>v. v" Y p3 Z] by simp

lemma stencil_scaled:
  fixes lo hi a1 b1 a2 b2 oa ob :: int
  assumes "0 \<le> lo" "lo \<le> hi" "hi \<le> int N"
    "a1 = lo + oa" "b1 = hi + oa" "0 \<le> a1" "b1 \<le> int N"
    "a2 = lo + ob" "b2 = hi + ob" "0 \<le> a2" "b2 \<le> int N"
  shows "bindE (np_bop f (py_slice a1 b1 (map X [0 ..< N]))
                        (map p2 (py_slice a2 b2 (map Y [0 ..< N]))))
           (\<lambda>d. set_slice lo hi d (map Z [0 ..< N]))
    = Inr (map (\<lambda>i. if lo \<le> int i \<and> int i < hi
                     then f (X (nat (int i + oa))) (p2 (Y (nat (int i + ob))))
                     else Z i) [0 ..< N])"
  using stencil[OF assms, of f "\<lambda>v. v" X p2 Y "\<lambda>v. v" Z] by simp


lemma proper_grid_bounds:
  assumes "proper_grid g"
  shows "2 \<le> ilo g" "ilo g \<le> ihi g" "ihi g + ilo g + 1 = int (nat (nx g + 2 * ng g))"
    "0 \<le> nx g + 2 * ng g"
  using assms by (auto simp: proper_grid_def)

lemma scratch_vec_proper:
  assumes "proper_grid g"
  shows "scratch_array g NVAR = Inr (Vector (table (nat (nx g + 2 * ng g)) (\<lambda>i n. Fin 0)))"
  using proper_grid_bounds[OF assms] by (intro scratch_vec) simp

lemma left_states_ok:
  assumes "proper_grid g"
  shows "left_states g (table (nat (nx g + 2 * ng g)) Q) (table (nat (nx g + 2 * ng g)) D) =
    Inr (table (nat (nx g + 2 * ng g))
          (\<lambda>i n. if ilo g \<le> int i \<and> int i < ihi g + 2
                  then fadd (Q (nat (int i + (-1))) n) (fmul (Fin 0.5) (D (nat (int i + (-1))) n))
                  else Fin 0))"
proof -
  let ?N = "nat (nx g + 2 * ng g)"
  note b = proper_grid_bounds[OF assms]
  have "for_cols NVAR (\<lambda>n c.
         bindE (py_col (table ?N Q) n) (\<lambda>qn.
         bindE (py_col (table ?N D) n) (\<lambda>dqn.
         bindE (np_bop fadd (py_slice (ilo g - 1) (ihi g + 1) qn)
                  (map (fmul (Fin 0.5)) (py_slice (ilo g - 1) (ihi g + 1) dqn))) (\<lambda>v.
         set_slice (ilo g) (ihi g + 2) v c)))) (table ?N (\<lambda>i n. Fin 0))
     = Inr (table ?N (\<lambda>i n. if ilo g \<le> int i \<and> int i < ihi g + 2
                  then fadd (Q (nat (int i + (-1))) n) (fmul (Fin 0.5) (D (nat (int i + (-1))) n))
                  else Fin 0))"
  proof (rule for_cols_table)
    fix n assume n: "n < NVAR"
    show "bindE (py_col (table ?N Q) n) (\<lambda>qn.
         bindE (py_col (table ?N D) n) (\<lambda>dqn.
         bindE (np_bop fadd (py_slice (ilo g - 1) (ihi g + 1) qn)
                  (map (fmul (Fin 0.5)) (py_slice (ilo g - 1) (ihi g + 1) dqn))) (\<lambda>v.
         set_slice (ilo g) (ihi g + 2) v (map (\<lambda>i. Fin 0) [0 ..< ?N]))))
      = Inr (map (\<lambda>i. if ilo g \<le> int i \<and> int i < ihi g + 2
                  then fadd (Q (nat (int i + (-1))) n) (fmul (Fin 0.5) (D (nat (int i + (-1))) n))
                  else Fin 0) [0 ..< ?N])"
      unfolding py_col_table[OF n] bindE_Inr
      by (rule stencil_scaled[where oa = "-1" and ob = "-1"]) (use b in auto)
  qed
  then show ?thesis
    by (simp only: left_states_def scratch_vec_proper[OF assms] bindE_Inr cols.simps)
qed

lemma right_states_ok:
  assumes "proper_grid g"
  shows "right_states g (table (nat (nx g + 2 * ng g)) Q) (table (nat (nx g + 2 * ng g)) D) =
    Inr (table (nat (nx g + 2 * ng g))
          (\<lambda>i n. if ilo g \<le> int i \<and> int i < ihi g + 2
                  then fsub (Q (nat (int i + 0)) n) (fmul (Fin 0.5) (D (nat (int i + 0)) n))
                  else Fin 0))"
proof -
  let ?N = "nat (nx g + 2 * ng g)"
  note b = proper_grid_bounds[OF assms]
  have "for_cols NVAR (\<lambda>n c.
         bindE (py_col (table ?N Q) n) (\<lambda>qn.
         bindE (py_col (table ?N D) n) (\<lambda>dqn.
         bindE (np_bop fsub (py_slice (ilo g) (ihi g + 2) qn)
                  (map (fmul (Fin 0.5)) (py_slice (ilo g) (ihi g + 2) dqn))) (\<lambda>v.
         set_slice (ilo g) (ihi g + 2) v c)))) (table ?N (\<lambda>i n. Fin 0))
     = Inr (table ?N (\<lambda>i n. if ilo g \<le> int i \<and> int i < ihi g + 2
                  then fsub (Q (nat (int i + 0)) n) (fmul (Fin 0.5) (D (nat (int i + 0)) n))
                  else Fin 0))"
  proof (rule for_cols_table)
    fix n assume n: "n < NVAR"
    show "bindE (py_col (table ?N Q) n) (\<lambda>qn.
         bindE (py_col (table ?N D) n) (\<lambda>dqn.
         bindE (np_bop fsub (py_slice (ilo g) (ihi g + 2) qn)
                  (map (fmul (Fin 0.5)) (py_slice (ilo g) (ihi g + 2) dqn))) (\<lambda>v.
         set_slice (ilo g) (ihi g + 2) v (map (\<lambda>i. Fin 0) [0 ..< ?N]))))
      = Inr (map (\<lambda>i. if ilo g \<le> int i \<and> int i < ihi g + 2
                  then fsub (Q (nat (int i + 0)) n) (fmul (Fin 0.5) (D (nat (int i + 0)) n))
                  else Fin 0) [0 ..< ?N])"
      unfolding py_col_table[OF n] bindE_Inr
      by (rule stencil_scaled[where oa = 0 and ob = 0]) (use b in auto)
  qed
  then show ?thesis
    by (simp only: right_states_def scratch_vec_proper[OF assms] bindE_Inr cols.simps)
qed

lemma flux_difference_ok:
  assumes "proper_grid g"
  shows "flux_difference g (table (nat (nx g + 2 * ng g)) F) =
    Inr (table (nat (nx g + 2 * ng g))
          (\<lambda>i n. if ilo g \<le> int i \<and> int i < ihi g + 1
                  then fdiv (fsub (F (nat (int i + 0)) n) (F (nat (int i + 1)) n)) (Fin (dx g))
                  else Fin 0))"
proof -
  let ?N = "nat (nx g + 2 * ng g)"
  note b = proper_grid_bounds[OF assms]
  have "for_cols NVAR (\<lambda>n c.
         bindE (py_col (table ?N F) n) (\<lambda>fn.
         bindE (np_bop fsub (py_slice (ilo g) (ihi g + 1) fn)
                            (py_slice (ilo g + 1) (ihi g + 2) fn)) (\<lambda>d.
         set_slice (ilo g) (ihi g + 1) (map (\<lambda>v. fdiv v (Fin (dx g))) d) c))) (table ?N (\<lambda>i n. Fin 0))
     = Inr (table ?N (\<lambda>i n. if ilo g \<le> int i \<and> int i < ihi g + 1
                  then fdiv (fsub (F (nat (int i + 0)) n) (F (nat (int i + 1)) n)) (Fin (dx g))
                  else Fin 0))"
  proof (rule for_cols_table)
    fix n assume n: "n < NVAR"
    show "bindE (py_col (table ?N F) n) (\<lambda>fn.
         bindE (np_bop fsub (py_slice (ilo g) (ihi g + 1) fn)
                            (py_slice (ilo g + 1) (ihi g + 2) fn)) (\<lambda>d.
         set_slice (ilo g) (ihi g + 1) (map (\<lambda>v. fdiv v (Fin (dx g))) d) (map (\<lambda>i. Fin 0) [0 ..< ?N])))
      = Inr (map (\<lambda>i. if ilo g \<le> int i \<and> int i < ihi g + 1
                  then fdiv (fsub (F (nat (int i + 0)) n) (F (nat (int i + 1)) n)) (Fin (dx g))
                  else Fin 0) [0 ..< ?N])"
      unfolding py_col_table[OF n] bindE_Inr
      by (rule stencil_plain[where oa = 0 and ob = 1]) (use b in auto)
  qed
  then show ?thesis
    by (simp only: flux_difference_def scratch_vec_proper[OF assms] bindE_Inr cols.simps)
qed

lemma states_ok:
  assumes pg: "proper_grid g" and sh: "state_shape g U"
  shows "states g U =
    Inr (table (nat (nx g + 2 * ng g))
           (\<lambda>i n. if ilo g \<le> int i \<and> int i < ihi g + 2 then q_left_spec U i n else Fin 0),
         table (nat (nx g + 2 * ng g))
           (\<lambda>i n. if ilo g \<le> int i \<and> int i < ihi g + 2 then q_right_spec U i n else Fin 0))"
proof -
  let ?N = "nat (nx g + 2 * ng g)"
  let ?D = "\<lambda>i n. if nat (ilo g) - 1 \<le> i \<and> i \<le> nat (ihi g) + 1
                  then fmul (Fin 0.5) (fsub (to_primitive U (i + 1) n) (to_primitive U (i - 1) n))
                  else Fin 0"
  note b = proper_grid_bounds[OF pg]
  have c: "cons_to_prim g U = Inr (table ?N (to_primitive U))"
    using sh b by (intro cons_to_prim_ok) auto
  have l: "table ?N (\<lambda>i n. if ilo g \<le> int i \<and> int i < ihi g + 2
                  then fadd (to_primitive U (nat (int i + (-1))) n) (fmul (Fin 0.5) (?D (nat (int i + (-1))) n))
                  else Fin 0)
     = table ?N (\<lambda>i n. if ilo g \<le> int i \<and> int i < ihi g + 2 then q_left_spec U i n else Fin 0)"
  proof (rule table_cong)
    fix i n assume "i < ?N" "n < NVAR"
    show "(if ilo g \<le> int i \<and> int i < ihi g + 2
                  then fadd (to_primitive U (nat (int i + (-1))) n) (fmul (Fin 0.5) (?D (nat (int i + (-1))) n))
                  else Fin 0) = (if ilo g \<le> int i \<and> int i < ihi g + 2 then q_left_spec U i n else Fin 0)"
    proof (rule if_cong[OF refl _ refl])
      assume r: "ilo g \<le> int i \<and> int i < ihi g + 2"
      have e: "nat (int i + (-1)) = i - 1" by linarith
      have d: "nat (ilo g) - 1 \<le> i - 1 \<and> i - 1 \<le> nat (ihi g) + 1"
        using r b by linarith
      show "fadd (to_primitive U (nat (int i + (-1))) n) (fmul (Fin 0.5) (?D (nat (int i + (-1))) n))
        = q_left_spec U i n"
        unfolding e q_left_spec_def slope_spec_def using d by simp
    qed
  qed
  have r: "table ?N (\<lambda>i n. if ilo g \<le> int i \<and> int i < ihi g + 2
                  then fsub (to_primitive U (nat (int i + 0)) n) (fmul (Fin 0.5) (?D (nat (int i + 0)) n))
                  else Fin 0)
     = table ?N (\<lambda>i n. if ilo g \<le> int i \<and> int i < ihi g + 2 then q_right_spec U i n else Fin 0)"
  proof (rule table_cong)
    fix i n assume "i < ?N" "n < NVAR"
    show "(if ilo g \<le> int i \<and> int i < ihi g + 2
                  then fsub (to_primitive U (nat (int i + 0)) n) (fmul (Fin 0.5) (?D (nat (int i + 0)) n))
                  else Fin 0) = (if ilo g \<le> int i \<and> int i < ihi g + 2 then q_right_spec U i n else Fin 0)"
    proof (rule if_cong[OF refl _ refl])
      assume r: "ilo g \<le> int i \<and> int i < ihi g + 2"
      have e: "nat (int i + 0) = i" by simp
      have d: "nat (ilo g) - 1 \<le> i \<and> i \<le> nat (ihi g) + 1"
        using r b by linarith
      show "fsub (to_primitive U (nat (int i + 0)) n) (fmul (Fin 0.5) (?D (nat (int i + 0)) n))
        = q_right_spec U i n"
        unfolding e q_right_spec_def slope_spec_def using d by simp
    qed
  qed
  show ?thesis
    by (simp only: states_def c bindE_Inr slopes_ok[OF pg] left_states_ok[OF pg]
          right_states_ok[OF pg] l r)
qed

lemma ent_table: "0 \<le> i \<Longrightarrow> i < int N \<Longrightarrow> n < NVAR \<Longrightarrow> ent (table N f) i n = f (nat i) n"
  by (simp add: ent_def nth_table)

lemma FVGrid_proper:
  assumes "FVGrid n_x n_g x_min x_max = Inr g" "1 \<le> n_x" "2 \<le> n_g"
  shows "proper_grid g"
  using FVGrid_fields[OF assms(1)] assms(2,3) by (simp add: proper_grid_def)

lemma to_primitive_uniform:
  assumes "rho \<noteq> 0" "n < NVAR"
    "U ! URHO ! k = Fin rho" "U ! UMX ! k = Fin mx" "U ! UENER ! k = Fin e"
  shows "to_primitive U k n = Fin (prim_real rho mx e n)"
  using assms
  by (simp add: to_primitive_def prim_real_def Let_def gamma_def fsub_def power2_eq_square)


lemma reconstruction_entries:
  assumes g: "FVGrid n_x n_g x_min x_max = Inr g" and n: "1 \<le> n_x" "2 \<le> n_g"
    and sh: "state_shape g U"
  shows "\<exists>q dq q_l q_r.
    cons_to_prim g U = Inr q \<and> slopes g q = Inr dq \<and> states g U = Inr (q_l, q_r) \<and>
    (\<forall>i n. 0 \<le> i \<and> i < nx g + 2 * ng g \<and> n < NVAR \<longrightarrow>
       ent q i n = to_primitive U (nat i) n) \<and>
    (\<forall>i n. ilo g - 1 \<le> i \<and> i \<le> ihi g + 1 \<and> n < NVAR \<longrightarrow>
       ent dq i n = fmul (Fin 0.5) (fsub (ent q (i + 1) n) (ent q (i - 1) n))) \<and>
    (\<forall>i n. ilo g \<le> i \<and> i \<le> ihi g + 1 \<and> n < NVAR \<longrightarrow>
       ent q_l i n = fadd (ent q (i - 1) n) (fmul (Fin 0.5) (ent dq (i - 1) n)) \<and>
       ent q_r i n = fsub (ent q i n) (fmul (Fin 0.5) (ent dq i n)))"
proof -
  let ?N = "nat (nx g + 2 * ng g)"
  let ?q = "table ?N (to_primitive U)"
  let ?D = "\<lambda>i n. if nat (ilo g) - 1 \<le> i \<and> i \<le> nat (ihi g) + 1
                  then fmul (Fin 0.5) (fsub (to_primitive U (i + 1) n) (to_primitive U (i - 1) n))
                  else Fin 0"
  let ?dq = "table ?N ?D"
  let ?ql = "table ?N (\<lambda>i n. if ilo g \<le> int i \<and> int i < ihi g + 2 then q_left_spec U i n else Fin 0)"
  let ?qr = "table ?N (\<lambda>i n. if ilo g \<le> int i \<and> int i < ihi g + 2 then q_right_spec U i n else Fin 0)"
  have pg: "proper_grid g" by (rule FVGrid_proper[OF g n])
  note b = proper_grid_bounds[OF pg]
  have 1: "cons_to_prim g U = Inr ?q"
    using sh b by (intro cons_to_prim_ok) auto
  have 2: "slopes g ?q = Inr ?dq" by (rule slopes_ok[OF pg])
  have 3: "states g U = Inr (?ql, ?qr)" by (rule states_ok[OF pg sh])
  have 4: "ent ?q i n = to_primitive U (nat i) n" if "0 \<le> i \<and> i < nx g + 2 * ng g \<and> n < NVAR" for i n
    using that by (intro ent_table) auto
  have 5: "ent ?dq i n = fmul (Fin 0.5) (fsub (ent ?q (i + 1) n) (ent ?q (i - 1) n))"
    if r: "ilo g - 1 \<le> i \<and> i \<le> ihi g + 1 \<and> n < NVAR" for i n
  proof -
    have i: "0 \<le> i" "i < int ?N" "0 \<le> i + 1" "i + 1 < int ?N" "0 \<le> i - 1" "i - 1 < int ?N"
      using r b by linarith+
    have c: "nat (ilo g) - 1 \<le> nat i \<and> nat i \<le> nat (ihi g) + 1" using r b by linarith
    have e: "nat (i + 1) = nat i + 1" "nat (i - 1) = nat i - 1" using i by linarith+
    show ?thesis using r c
      by (simp add: ent_table[OF i(1,2)] ent_table[OF i(3,4)] ent_table[OF i(5,6)] e)
  qed
  have 6: "ent ?ql i n = fadd (ent ?q (i - 1) n) (fmul (Fin 0.5) (ent ?dq (i - 1) n)) \<and>
       ent ?qr i n = fsub (ent ?q i n) (fmul (Fin 0.5) (ent ?dq i n))"
    if r: "ilo g \<le> i \<and> i \<le> ihi g + 1 \<and> n < NVAR" for i n
  proof -
    have i: "0 \<le> i" "i < int ?N" "0 \<le> i - 1" "i - 1 < int ?N"
      using r b by linarith+
    have c: "nat (ilo g) - 1 \<le> nat i \<and> nat i \<le> nat (ihi g) + 1"
      "nat (ilo g) - 1 \<le> nat i - 1 \<and> nat i - 1 \<le> nat (ihi g) + 1"
      "ilo g \<le> int (nat i) \<and> int (nat i) < ihi g + 2"
      using r b by linarith+
    have e: "nat (i - 1) = nat i - 1" using i by linarith
    show ?thesis using r c
      by (simp add: ent_table[OF i(1,2)] ent_table[OF i(3,4)] e
            q_left_spec_def q_right_spec_def slope_spec_def)
  qed
  from 1 2 3 4 5 6 show ?thesis by blast
qed


lemma mapE_ok: "(\<And>v. v \<in> set vs \<Longrightarrow> f v = Inr (h v)) \<Longrightarrow> mapE f vs = Inr (map h vs)"
  by (induction vs) simp_all

lemma py_row_table:
  assumes "0 \<le> i" "i < int N"
  shows "py_row (table N Q) i = Inr (map (Q (nat i)) [0 ..< NVAR])"
proof -
  have "mapE (\<lambda>c. py_index c i) (table N Q) = Inr (map (\<lambda>c. c ! nat i) (table N Q))"
    using assms by (intro mapE_ok) (auto simp: table_def py_index_ok)
  also have "map (\<lambda>c. c ! nat i) (table N Q) = map (Q (nat i)) [0 ..< NVAR]"
  proof -
    have "nat i < N" using assms by linarith
    then show ?thesis by (simp add: table_def)
  qed
  finally show ?thesis by (simp add: py_row_def)
qed

lemma set_row_table:
  assumes "0 \<le> i" "i < int N" "length v = NVAR"
  shows "set_row (table N F) i v = Inr (table N (\<lambda>k n. if k = nat i then v ! n else F k n))"
proof -
  have "map2 (\<lambda>c w. c[row_index c i := w]) (table N F) v
      = table N (\<lambda>k n. if k = nat i then v ! n else F k n)"
    using assms
    by (auto simp: table_def row_index_def intro!: nth_equalityI)
  then show ?thesis using assms
    by (simp add: set_row_def py_row_table)
qed

lemma riemann_fold:
  fixes lo hi :: int
  assumes rs: "flux_solver rs" and b: "0 \<le> lo" "hi \<le> int N"
  shows "lo \<le> k \<Longrightarrow> k \<le> hi \<Longrightarrow>
    foldE (\<lambda>flux i.
         bindE (py_row (table N Ql) i) (\<lambda>l.
         bindE (py_row (table N Qr) i) (\<lambda>r. set_row flux i (rs l r gamma))))
       (table N (\<lambda>i n. if lo \<le> int i \<and> int i < k
                       then rs (map (Ql i) [0 ..< NVAR]) (map (Qr i) [0 ..< NVAR]) gamma ! n
                       else Fin 0))
       [k .. hi - 1]
    = Inr (table N (\<lambda>i n. if lo \<le> int i \<and> int i < hi
                       then rs (map (Ql i) [0 ..< NVAR]) (map (Qr i) [0 ..< NVAR]) gamma ! n
                       else Fin 0))"
proof (induction "nat (hi - k)" arbitrary: k)
  case 0
  then have "k = hi" by simp
  then show ?case by simp
next
  case (Suc d)
  then have kh: "k < hi" by linarith
  have k: "0 \<le> k" "k < int N" using Suc.prems kh b by linarith+
  have u: "[k .. hi - 1] = k # [k + 1 .. hi - 1]"
    using kh by (simp add: upto_rec1)
  let ?R = "\<lambda>i n. rs (map (Ql i) [0 ..< NVAR]) (map (Qr i) [0 ..< NVAR]) gamma ! n"
  have len: "length (rs (map (Ql (nat k)) [0 ..< NVAR]) (map (Qr (nat k)) [0 ..< NVAR]) gamma) = NVAR"
    using rs by (simp add: flux_solver_def)
  have step: "set_row (table N (\<lambda>i n. if lo \<le> int i \<and> int i < k then ?R i n else Fin 0)) k
       (rs (map (Ql (nat k)) [0 ..< NVAR]) (map (Qr (nat k)) [0 ..< NVAR]) gamma)
     = Inr (table N (\<lambda>i n. if lo \<le> int i \<and> int i < k + 1 then ?R i n else Fin 0))"
  proof -
    have "table N (\<lambda>j n. if j = nat k then ?R (nat k) n
              else if lo \<le> int j \<and> int j < k then ?R j n else Fin 0)
        = table N (\<lambda>i n. if lo \<le> int i \<and> int i < k + 1 then ?R i n else Fin 0)"
    proof (rule table_cong)
      fix i n assume "i < N" "n < NVAR"
      show "(if i = nat k then ?R (nat k) n
              else if lo \<le> int i \<and> int i < k then ?R i n else Fin 0)
         = (if lo \<le> int i \<and> int i < k + 1 then ?R i n else Fin 0)"
        using Suc.prems k by (cases "i = nat k") auto
    qed
    then show ?thesis using set_row_table[OF k len] by simp
  qed
  have d: "d = nat (hi - (k + 1))" "lo \<le> k + 1" "k + 1 \<le> hi"
    using Suc.hyps(2) Suc.prems kh by linarith+
  show ?case
    unfolding u foldE.simps py_row_table[OF k] bindE_Inr step
    by (rule Suc.hyps(1)[OF d])
qed


lemma riemann_fluxes_ok:
  assumes pg: "proper_grid g" and sh: "state_shape g U" and rs: "flux_solver rs"
  shows "riemann_fluxes rs g U =
    Inr (table (nat (nx g + 2 * ng g))
           (\<lambda>i n. if ilo g \<le> int i \<and> int i < ihi g + 2 then flux_spec rs U i n else Fin 0))"
proof -
  let ?N = "nat (nx g + 2 * ng g)"
  let ?Ql = "\<lambda>i n. if ilo g \<le> int i \<and> int i < ihi g + 2 then q_left_spec U i n else Fin 0"
  let ?Qr = "\<lambda>i n. if ilo g \<le> int i \<and> int i < ihi g + 2 then q_right_spec U i n else Fin 0"
  let ?R = "\<lambda>i n. rs (map (?Ql i) [0 ..< NVAR]) (map (?Qr i) [0 ..< NVAR]) gamma ! n"
  note b = proper_grid_bounds[OF pg]
  have b': "0 \<le> ilo g" "ihi g + 2 \<le> int ?N" "ilo g \<le> ilo g" "ilo g \<le> ihi g + 2"
    using b by linarith+
  have z: "table ?N (\<lambda>i n. Fin 0)
      = table ?N (\<lambda>i n. if ilo g \<le> int i \<and> int i < ilo g then ?R i n else Fin 0)"
  proof (rule table_cong)
    fix i :: nat and n :: nat
    have "\<not> (ilo g \<le> int i \<and> int i < ilo g)" by linarith
    then show "Fin 0 = (if ilo g \<le> int i \<and> int i < ilo g then ?R i n else Fin 0)"
      by (simp only: if_False)
  qed
  have r: "table ?N (\<lambda>i n. if ilo g \<le> int i \<and> int i < ihi g + 2 then ?R i n else Fin 0)
      = table ?N (\<lambda>i n. if ilo g \<le> int i \<and> int i < ihi g + 2 then flux_spec rs U i n else Fin 0)"
    by (rule table_cong) (simp add: flux_spec_def)
  have "foldE (\<lambda>flux i.
         bindE (py_row (table ?N ?Ql) i) (\<lambda>l.
         bindE (py_row (table ?N ?Qr) i) (\<lambda>r. set_row flux i (rs l r gamma))))
       (table ?N (\<lambda>i n. Fin 0)) (py_range (ilo g) (ihi g + 2))
     = Inr (table ?N (\<lambda>i n. if ilo g \<le> int i \<and> int i < ihi g + 2 then flux_spec rs U i n else Fin 0))"
    unfolding py_range_def z r[symmetric]
    by (rule riemann_fold[OF rs b'])
  then show ?thesis
    by (simp only: riemann_fluxes_def states_ok[OF pg sh] bindE_Inr prod.case
          scratch_vec_proper[OF pg] cols.simps)
qed

lemma make_flux_divergence_ok:
  assumes pg: "proper_grid g" and sh: "state_shape g U" and rs: "flux_solver rs"
  shows "make_flux_divergence rs g U =
    Inr (table (nat (nx g + 2 * ng g))
           (\<lambda>i n. if ilo g \<le> int i \<and> int i < ihi g + 1 then rhs_spec rs g U i n else Fin 0))"
proof -
  let ?N = "nat (nx g + 2 * ng g)"
  let ?F = "\<lambda>i n. if ilo g \<le> int i \<and> int i < ihi g + 2 then flux_spec rs U i n else Fin 0"
  have "table ?N (\<lambda>i n. if ilo g \<le> int i \<and> int i < ihi g + 1
                  then fdiv (fsub (?F (nat (int i + 0)) n) (?F (nat (int i + 1)) n)) (Fin (dx g))
                  else Fin 0)
      = table ?N (\<lambda>i n. if ilo g \<le> int i \<and> int i < ihi g + 1 then rhs_spec rs g U i n else Fin 0)"
  proof (rule table_cong)
    fix i n assume "i < ?N" "n < NVAR"
    show "(if ilo g \<le> int i \<and> int i < ihi g + 1
                  then fdiv (fsub (?F (nat (int i + 0)) n) (?F (nat (int i + 1)) n)) (Fin (dx g))
                  else Fin 0)
      = (if ilo g \<le> int i \<and> int i < ihi g + 1 then rhs_spec rs g U i n else Fin 0)"
    proof (rule if_cong[OF refl _ refl])
      assume c: "ilo g \<le> int i \<and> int i < ihi g + 1"
      have e: "nat (int i + 0) = i" "nat (int i + 1) = i + 1" by linarith+
      have d: "ilo g \<le> int i \<and> int i < ihi g + 2" "ilo g \<le> int (i + 1) \<and> int (i + 1) < ihi g + 2"
        using c by linarith+
      show "fdiv (fsub (?F (nat (int i + 0)) n) (?F (nat (int i + 1)) n)) (Fin (dx g))
        = rhs_spec rs g U i n"
        unfolding e rhs_spec_def using d by simp
    qed
  qed
  then show ?thesis
    by (simp only: make_flux_divergence_def riemann_fluxes_ok[OF pg sh rs] bindE_Inr
          flux_difference_ok[OF pg])
qed


lemma state_shape_table_proper:
  assumes "proper_grid g"
  shows "state_shape g (table (nat (nx g + 2 * ng g)) f)"
  using proper_grid_bounds[OF assms]
  by (simp add: state_shape_def table_def list_all_iff)

lemma row_at_table:
  assumes "0 \<le> i" "i < int N"
  shows "row_at (table N Q) i = map (Q (nat i)) [0 ..< NVAR]"
proof -
  have "nat i < N" using assms by linarith
  then show ?thesis by (simp add: row_at_def table_def)
qed

lemma bindE_assoc: "bindE (bindE m k) h = bindE m (\<lambda>v. bindE (k v) h)"
  by (cases m) simp_all

lemma stencil_left:
  fixes lo hi a1 b1 a2 b2 oa ob :: int
  assumes "0 \<le> lo" "lo \<le> hi" "hi \<le> int N"
    "a1 = lo + oa" "b1 = hi + oa" "0 \<le> a1" "b1 \<le> int N"
    "a2 = lo + ob" "b2 = hi + ob" "0 \<le> a2" "b2 \<le> int N"
  shows "bindE (np_bop f (map p1 (py_slice a1 b1 (map X [0 ..< N])))
                        (py_slice a2 b2 (map Y [0 ..< N])))
           (\<lambda>d. set_slice lo hi (map p3 d) (map Z [0 ..< N]))
    = Inr (map (\<lambda>i. if lo \<le> int i \<and> int i < hi
                     then p3 (f (p1 (X (nat (int i + oa)))) (Y (nat (int i + ob))))
                     else Z i) [0 ..< N])"
  using stencil[OF assms, of f p1 X "\<lambda>v. v" Y p3 Z] by simp

lemma py_slice_tabulate:
  assumes "0 \<le> lo" "lo \<le> hi" "hi \<le> int N"
  shows "py_slice lo hi (map X [0 ..< N]) = map (\<lambda>k. X (nat lo + k)) [0 ..< nat (hi - lo)]"
proof (intro nth_equalityI)
  show "length (py_slice lo hi (map X [0 ..< N])) = length (map (\<lambda>k. X (nat lo + k)) [0 ..< nat (hi - lo)])"
    using assms by (simp add: length_py_slice)
next
  fix k assume "k < length (py_slice lo hi (map X [0 ..< N]))"
  then have k: "k < nat (hi - lo)" using assms by (simp add: length_py_slice)
  then have "nat lo + k < N" using assms by linarith
  then show "py_slice lo hi (map X [0 ..< N]) ! k = map (\<lambda>k. X (nat lo + k)) [0 ..< nat (hi - lo)] ! k"
    using assms k by (subst nth_py_slice) auto
qed

lemma timestep_ok:
  assumes pg: "proper_grid g" and sh: "state_shape g U"
  shows "timestep g U =
    bindE (np_max (map (\<lambda>k. signal_speed U (nat (ilo g) + k)) [0 ..< nat (nx g)]))
      (\<lambda>m. Inr (fdiv (fmul C (Fin (dx g))) m))"
proof -
  let ?N = "nat (nx g + 2 * ng g)"
  let ?q = "table ?N (to_primitive U)"
  let ?c = "map (\<lambda>i. if ilo g \<le> int i \<and> int i < ihi g + 1 then sound_speed U i else Fin 0) [0 ..< ?N]"
  note b = proper_grid_bounds[OF pg]
  have nx: "nat (ihi g + 1 - ilo g) = nat (nx g)" using pg by (simp add: proper_grid_def)
  have c: "cons_to_prim g U = Inr ?q"
    using sh b by (intro cons_to_prim_ok) auto
  have z: "scratch_array g 1 = Inr (Scalar (map (\<lambda>i. Fin 0) [0 ..< ?N]))"
    using b by (intro scratch_scalar) simp
  have col: "py_col ?q QP = Inr (map (\<lambda>i. to_primitive U i QP) [0 ..< ?N])"
    "py_col ?q QRHO = Inr (map (\<lambda>i. to_primitive U i QRHO) [0 ..< ?N])"
    "py_col ?q QU = Inr (map (\<lambda>i. to_primitive U i QU) [0 ..< ?N])"
    by (simp_all add: py_col_table QP_def QRHO_def QU_def NVAR_def)
  have bb: "0 \<le> ilo g" "ilo g \<le> ihi g + 1" "ihi g + 1 \<le> int ?N"
    "ilo g = ilo g + 0" "ihi g + 1 = ihi g + 1 + 0"
    using b by linarith+
  have s: "bindE (np_bop fdiv (map (fmul gamma) (py_slice (ilo g) (ihi g + 1) (map (\<lambda>i. to_primitive U i QP) [0 ..< ?N])))
                        (py_slice (ilo g) (ihi g + 1) (map (\<lambda>i. to_primitive U i QRHO) [0 ..< ?N])))
            (\<lambda>s. set_slice (ilo g) (ihi g + 1) (map fsqrt s) (map (\<lambda>i. Fin 0) [0 ..< ?N]))
      = Inr ?c"
    unfolding sound_speed_def
    using stencil_left[OF bb(1,2,3,4,5,1,3,4,5,1,3), of fdiv "fmul gamma" "\<lambda>i. to_primitive U i QP"
        "\<lambda>i. to_primitive U i QRHO" fsqrt "\<lambda>i. Fin 0"]
    by simp
  have w: "np_bop fadd (map fabs (py_slice (ilo g) (ihi g + 1) (map (\<lambda>i. to_primitive U i QU) [0 ..< ?N])))
                        (py_slice (ilo g) (ihi g + 1) ?c)
      = Inr (map (\<lambda>k. signal_speed U (nat (ilo g) + k)) [0 ..< nat (nx g)])"
  proof -
    have 1: "py_slice (ilo g) (ihi g + 1) (map (\<lambda>i. to_primitive U i QU) [0 ..< ?N])
        = map (\<lambda>k. to_primitive U (nat (ilo g) + k) QU) [0 ..< nat (nx g)]"
      unfolding nx[symmetric] by (rule py_slice_tabulate[OF bb(1,2,3)])
    have 2: "py_slice (ilo g) (ihi g + 1) ?c
        = map (\<lambda>k. sound_speed U (nat (ilo g) + k)) [0 ..< nat (nx g)]"
    proof -
      have "py_slice (ilo g) (ihi g + 1) ?c
        = map (\<lambda>k. if ilo g \<le> int (nat (ilo g) + k) \<and> int (nat (ilo g) + k) < ihi g + 1
                     then sound_speed U (nat (ilo g) + k) else Fin 0) [0 ..< nat (nx g)]"
        unfolding nx[symmetric] by (rule py_slice_tabulate[OF bb(1,2,3)])
      also have "\<dots> = map (\<lambda>k. sound_speed U (nat (ilo g) + k)) [0 ..< nat (nx g)]"
      proof (rule map_cong[OF refl])
        fix k assume "k \<in> set [0 ..< nat (nx g)]"
        then have "ilo g \<le> int (nat (ilo g) + k) \<and> int (nat (ilo g) + k) < ihi g + 1"
          using b pg by (auto simp: proper_grid_def)
        then show "(if ilo g \<le> int (nat (ilo g) + k) \<and> int (nat (ilo g) + k) < ihi g + 1
                     then sound_speed U (nat (ilo g) + k) else Fin 0) = sound_speed U (nat (ilo g) + k)"
          by (rule if_P)
      qed
      finally show ?thesis .
    qed
    show ?thesis unfolding 1 2
      by (subst np_bop_ok) (simp_all add: signal_speed_def)
  qed
  show ?thesis
    unfolding timestep_def
    by (simp only: c z col bindE_Inr vals.simps bindE_assoc[symmetric] s w)
qed

lemma foldl_fmax_Fin: "foldl fmax (Fin a) (map Fin ys) = Fin (foldl max a ys)"
  by (induction ys arbitrary: a) simp_all

lemma foldl_max_Max: "foldl max (a::real) ys = Max (set (a # ys))"
proof (induction ys arbitrary: a)
  case Nil
  then show ?case by simp
next
  case (Cons y ys)
  have "Max (set (max a y # ys)) = Max (set (a # y # ys))"
    by (cases "ys = []") (auto simp: max.assoc)
  then show ?case using Cons by simp
qed

lemma np_max_Fin: "vs \<noteq> [] \<Longrightarrow> np_max (map Fin vs) = Inr (Fin (Max (set vs)))"
  by (cases vs) (simp_all add: foldl_fmax_Fin foldl_max_Max)

lemma timestep_finite:
  assumes g: "FVGrid n_x n_g x_min x_max = Inr g" and n: "1 \<le> n_x" "2 \<le> n_g"
    and sh: "state_shape g U"
    and fin: "\<forall>i. ilo g \<le> i \<and> i \<le> ihi g \<longrightarrow> signal_speed U (nat i) = Fin (s i)"
  shows "timestep g U = Inr (fdiv (fmul C (Fin (dx g))) (Fin (Max (s ` {ilo g .. ihi g}))))"
proof -
  have pg: "proper_grid g" by (rule FVGrid_proper[OF g n])
  note b = proper_grid_bounds[OF pg]
  let ?vs = "map (\<lambda>k. s (ilo g + int k)) [0 ..< nat (nx g)]"
  have m: "map (\<lambda>k. signal_speed U (nat (ilo g) + k)) [0 ..< nat (nx g)] = map Fin ?vs"
  proof -
    have "signal_speed U (nat (ilo g) + k) = Fin (s (ilo g + int k))" if "k < nat (nx g)" for k
    proof -
      have "ilo g \<le> ilo g + int k \<and> ilo g + int k \<le> ihi g" "nat (ilo g + int k) = nat (ilo g) + k"
        using that pg by (auto simp: proper_grid_def)
      with fin show ?thesis by metis
    qed
    then show ?thesis by simp
  qed
  have ne: "?vs \<noteq> []" using pg by (simp add: proper_grid_def)
  have st: "set ?vs = s ` {ilo g .. ihi g}"
  proof -
    have "(\<lambda>k. ilo g + int k) ` {0 ..< nat (nx g)} = {ilo g .. ihi g}"
    proof (intro equalityI subsetI)
      fix i assume "i \<in> (\<lambda>k. ilo g + int k) ` {0 ..< nat (nx g)}"
      then show "i \<in> {ilo g .. ihi g}" using pg by (auto simp: proper_grid_def)
    next
      fix i assume i: "i \<in> {ilo g .. ihi g}"
      then have "nat (i - ilo g) \<in> {0 ..< nat (nx g)}" "i = ilo g + int (nat (i - ilo g))"
        using pg by (auto simp: proper_grid_def)
      then show "i \<in> (\<lambda>k. ilo g + int k) ` {0 ..< nat (nx g)}" by (rule rev_image_eqI)
    qed
    from this[symmetric] have "s ` {ilo g .. ihi g} = s ` ((\<lambda>k. ilo g + int k) ` {0 ..< nat (nx g)})"
      by (rule arg_cong)
    also have "\<dots> = (\<lambda>k. s (ilo g + int k)) ` {0 ..< nat (nx g)}"
      by (rule image_image)
    finally show ?thesis by simp
  qed
  show ?thesis
    by (simp only: timestep_ok[OF pg sh] m np_max_Fin[OF ne] st bindE_Inr)
qed

lemma timestep_unphysical: "timestep example_grid unphysical_state = Inr NaN"
proof -
  have pg: "proper_grid example_grid"
    by (simp add: proper_grid_def example_grid_def)
  have sh: "state_shape example_grid unphysical_state"
    by (simp add: state_shape_def unphysical_state_def example_grid_def NVAR_def)
  have u: "[0 ..< nat (nx example_grid)] = [0, 1]"
    by (simp add: example_grid_def upt_rec)
  have 2: "signal_speed unphysical_state (2 + 0) = Fin (sqrt (7/5))"
    by (simp add: signal_speed_def sound_speed_def to_primitive_def unphysical_state_def Let_def
          URHO_def UMX_def UENER_def QRHO_def QU_def QP_def gamma_def fsub_def)
  have 3: "signal_speed unphysical_state (2 + 1) = NaN"
    by (simp add: signal_speed_def sound_speed_def to_primitive_def unphysical_state_def Let_def
          URHO_def UMX_def UENER_def QRHO_def QU_def QP_def gamma_def fsub_def)
  have i: "nat (ilo example_grid) = 2" by (simp add: example_grid_def)
  show ?thesis
    unfolding timestep_ok[OF pg sh] u i
    by (simp only: list.map 2 3 np_max.simps foldl.simps fmax.simps bindE_Inr C_def
          fmul.simps fdiv.simps)
qed

lemma signal_speed_physical:
  assumes "to_primitive U k QRHO = Fin r" "to_primitive U k QU = Fin u" "to_primitive U k QP = Fin p"
    "0 < r" "0 < p"
  shows "signal_speed U k = Fin (\<bar>u\<bar> + sqrt (1.4 * p / r))" "0 < \<bar>u\<bar> + sqrt (1.4 * p / r)"
proof -
  have "0 < 1.4 * p / r" using assms by simp
  then have pos: "0 < sqrt (1.4 * p / r)" by simp
  have nn: "\<not> 7 * p / (5 * r) < 0"
    using assms by (simp add: not_less)
  show "signal_speed U k = Fin (\<bar>u\<bar> + sqrt (1.4 * p / r))"
    using assms nn
    by (simp add: signal_speed_def sound_speed_def gamma_def)
  show "0 < \<bar>u\<bar> + sqrt (1.4 * p / r)" using pos by linarith
qed

lemma fill_state_ok:
  assumes pg: "proper_grid g" and sh: "state_shape g U"
  shows "fill_state g U = Inr (fill_spec g U)"
proof -
  let ?N = "nat (nx g + 2 * ng g)"
  note b = proper_grid_bounds[OF pg]
  have U: "U = table ?N (\<lambda>i n. U ! n ! i)"
    using sh b by (intro state_shape_table) auto
  have l: "length U \<noteq> 1" using sh by (simp add: state_shape_def NVAR_def)
  have l3: "length U = NVAR" using sh by (simp add: state_shape_def)
  have "for_cols NVAR (\<lambda>n. fill_col g) (table ?N (\<lambda>i n. U ! n ! i))
      = Inr (table ?N (\<lambda>i n. if i < nat (ilo g) then U ! n ! nat (ilo g)
               else if nat (ihi g) < i then U ! n ! nat (ihi g) else U ! n ! i))"
  proof (rule for_cols_table)
    fix n assume n: "n < NVAR"
    let ?a = "map (\<lambda>i. U ! n ! i) [0 ..< ?N]"
    have hi: "ihi g < int (length ?a)" "0 \<le> ilo g" "ilo g \<le> ihi g" using b by auto
    have "fill_col g ?a = Inr (map (\<lambda>i. if i < nat (ilo g) then ?a ! nat (ilo g)
                                     else if nat (ihi g) < i then ?a ! nat (ihi g) else ?a ! i)
                               [0 ..< length ?a])"
      by (rule fill_col_ok[OF hi(2,3,1)])
    also have "map (\<lambda>i. if i < nat (ilo g) then ?a ! nat (ilo g)
                                     else if nat (ihi g) < i then ?a ! nat (ihi g) else ?a ! i)
                               [0 ..< length ?a]
        = map (\<lambda>i. if i < nat (ilo g) then U ! n ! nat (ilo g)
               else if nat (ihi g) < i then U ! n ! nat (ihi g) else U ! n ! i) [0 ..< ?N]"
    proof (rule map_cong)
      show "[0 ..< length ?a] = [0 ..< ?N]" by simp
    next
      fix i assume "i \<in> set [0 ..< ?N]"
      then have i: "i < ?N" by simp
      have j: "nat (ilo g) < ?N" "nat (ihi g) < ?N" using b by linarith+
      show "(if i < nat (ilo g) then ?a ! nat (ilo g)
                                     else if nat (ihi g) < i then ?a ! nat (ihi g) else ?a ! i)
         = (if i < nat (ilo g) then U ! n ! nat (ilo g)
               else if nat (ihi g) < i then U ! n ! nat (ihi g) else U ! n ! i)"
        using i j by simp
    qed
    finally show "fill_col g ?a = Inr (map (\<lambda>i. if i < nat (ilo g) then U ! n ! nat (ilo g)
               else if nat (ihi g) < i then U ! n ! nat (ihi g) else U ! n ! i) [0 ..< ?N])" .
  qed
  then have "for_cols (length U) (\<lambda>n. fill_col g) U = Inr (fill_spec g U)"
    unfolding fill_spec_def l3 using U by simp
  then show ?thesis using l by (simp add: fill_state_def fill_BCs_def)
qed

lemma axpy_col:
  "bindE (np_bop fadd (map X [0 ..< N]) (map p (map Y [0 ..< N])))
      (\<lambda>v. set_slice 0 (int (length (map Z [0 ..< N]))) v (map Z [0 ..< N]))
    = Inr (map (\<lambda>i. fadd (X i) (p (Y i))) [0 ..< N])"
proof -
  have 1: "np_bop fadd (map X [0 ..< N]) (map p (map Y [0 ..< N]))
      = Inr (map (\<lambda>i. fadd (X i) (p (Y i))) [0 ..< N])"
    by (subst np_bop_ok) (auto intro!: nth_equalityI)
  have 2: "set_slice 0 (int (length (map Z [0 ..< N]))) (map (\<lambda>i. fadd (X i) (p (Y i))) [0 ..< N]) (map Z [0 ..< N])
      = Inr (map (\<lambda>i. fadd (X i) (p (Y i))) [0 ..< N])"
    by (subst set_slice_ok) (auto intro!: nth_equalityI)
  show ?thesis by (simp only: 1 2 bindE_Inr)
qed

lemma state_shape_cols:
  assumes "proper_grid g" "state_shape g U" "n < NVAR"
  shows "U ! n = map (\<lambda>i. U ! n ! i) [0 ..< nat (nx g + 2 * ng g)]"
  using assms proper_grid_bounds[OF assms(1)]
  by (auto simp: state_shape_def list_all_length intro!: nth_equalityI)

lemma axpy_loop:
  assumes pg: "proper_grid g" and shU: "state_shape g U" and shK: "state_shape g K"
  shows "for_cols NVAR (\<lambda>n c.
              bindE (py_col U n) (\<lambda>un.
              bindE (py_col K n) (\<lambda>kn.
              bindE (np_bop fadd un (map (fmul a) kn)) (\<lambda>v.
              set_slice 0 (int (length c)) v c))))
           (table (nat (nx g + 2 * ng g)) Z)
     = Inr (axpy g a K U)"
  unfolding axpy_def
proof (rule for_cols_table)
  let ?N = "nat (nx g + 2 * ng g)"
  fix n assume n: "n < NVAR"
  have c: "py_col U n = Inr (map (\<lambda>i. U ! n ! i) [0 ..< ?N])"
    "py_col K n = Inr (map (\<lambda>i. K ! n ! i) [0 ..< ?N])"
    using state_shape_cols[OF pg shU n] state_shape_cols[OF pg shK n] shU shK n
    by (simp_all add: py_col_def state_shape_def)
  show "bindE (py_col U n) (\<lambda>un.
              bindE (py_col K n) (\<lambda>kn.
              bindE (np_bop fadd un (map (fmul a) kn)) (\<lambda>v.
              set_slice 0 (int (length (map (\<lambda>i. Z i n) [0 ..< ?N]))) v (map (\<lambda>i. Z i n) [0 ..< ?N]))))
     = Inr (map (\<lambda>i. fadd (U ! n ! i) (fmul a (K ! n ! i))) [0 ..< ?N])"
    unfolding c bindE_Inr by (rule axpy_col)
qed


lemma axpy_inplace:
  assumes pg: "proper_grid g" and shK: "state_shape g K"
  shows "for_cols NVAR (\<lambda>n un.
              bindE (py_col K n) (\<lambda>kn.
              bindE (np_bop fadd un (map (fmul a) kn)) (\<lambda>v.
              set_slice 0 (int (length un)) v un)))
           (table (nat (nx g + 2 * ng g)) Z)
     = Inr (axpy g a K (table (nat (nx g + 2 * ng g)) Z))"
proof -
  let ?N = "nat (nx g + 2 * ng g)"
  have "for_cols NVAR (\<lambda>n un.
              bindE (py_col K n) (\<lambda>kn.
              bindE (np_bop fadd un (map (fmul a) kn)) (\<lambda>v.
              set_slice 0 (int (length un)) v un)))
           (table ?N Z)
     = Inr (table ?N (\<lambda>i n. fadd (Z i n) (fmul a (K ! n ! i))))"
  proof (rule for_cols_table)
    fix n assume n: "n < NVAR"
    have c: "py_col K n = Inr (map (\<lambda>i. K ! n ! i) [0 ..< ?N])"
      using state_shape_cols[OF pg shK n] shK n
      by (simp_all add: py_col_def state_shape_def)
    show "bindE (py_col K n) (\<lambda>kn.
              bindE (np_bop fadd (map (\<lambda>i. Z i n) [0 ..< ?N]) (map (fmul a) kn)) (\<lambda>v.
              set_slice 0 (int (length (map (\<lambda>i. Z i n) [0 ..< ?N]))) v (map (\<lambda>i. Z i n) [0 ..< ?N])))
       = Inr (map (\<lambda>i. fadd (Z i n) (fmul a (K ! n ! i))) [0 ..< ?N])"
      unfolding c bindE_Inr by (rule axpy_col)
  qed
  also have "table ?N (\<lambda>i n. fadd (Z i n) (fmul a (K ! n ! i))) = axpy g a K (table ?N Z)"
    unfolding axpy_def by (rule table_cong) (simp add: nth_table)
  finally show ?thesis .
qed

lemma axpy_inplace_eq:
  assumes pg: "proper_grid g" and shK: "state_shape g K"
    and V: "V = table (nat (nx g + 2 * ng g)) Z"
  shows "for_cols NVAR (\<lambda>n un.
              bindE (py_col K n) (\<lambda>kn.
              bindE (np_bop fadd un (map (fmul a) kn)) (\<lambda>v.
              set_slice 0 (int (length un)) v un))) V
     = Inr (axpy g a K V)"
  unfolding V by (rule axpy_inplace[OF pg shK])

lemma state_shape_fill_spec: "proper_grid g \<Longrightarrow> state_shape g (fill_spec g U)"
  unfolding fill_spec_def by (rule state_shape_table_proper)

lemma state_shape_axpy: "proper_grid g \<Longrightarrow> state_shape g (axpy g a K U)"
  unfolding axpy_def by (rule state_shape_table_proper)

lemma state_shape_divergence_spec: "proper_grid g \<Longrightarrow> state_shape g (divergence_spec rs g U)"
  unfolding divergence_spec_def by (rule state_shape_table_proper)

lemma make_flux_divergence_spec:
  assumes "proper_grid g" "state_shape g U" "flux_solver rs"
  shows "make_flux_divergence rs g U = Inr (divergence_spec rs g U)"
  unfolding divergence_spec_def by (rule make_flux_divergence_ok[OF assms])

lemma rk2_predict_ok:
  assumes pg: "proper_grid g" and sh: "state_shape g U" and rs: "flux_solver rs"
  shows "rk2_predict rs g U dt =
    Inr (fill_spec g U,
         fill_spec g (axpy g (fmul (Fin 0.5) dt) (divergence_spec rs g (fill_spec g U)) (fill_spec g U)))"
proof -
  let ?U0 = "fill_spec g U"
  let ?k1 = "divergence_spec rs g ?U0"
  let ?Ut = "axpy g (fmul (Fin 0.5) dt) ?k1 ?U0"
  have 1: "fill_state g U = Inr ?U0" by (rule fill_state_ok[OF pg sh])
  have s0: "state_shape g ?U0" by (rule state_shape_fill_spec[OF pg])
  have 2: "make_flux_divergence rs g ?U0 = Inr ?k1" by (rule make_flux_divergence_spec[OF pg s0 rs])
  have s1: "state_shape g ?k1" by (rule state_shape_divergence_spec[OF pg])
  have 3: "for_cols NVAR (\<lambda>n c.
              bindE (py_col ?U0 n) (\<lambda>un.
              bindE (py_col ?k1 n) (\<lambda>kn.
              bindE (np_bop fadd un (map (fmul (fmul (Fin 0.5) dt)) kn)) (\<lambda>v.
              set_slice 0 (int (length c)) v c))))
           (table (nat (nx g + 2 * ng g)) (\<lambda>i n. Fin 0)) = Inr ?Ut"
    by (rule axpy_loop[OF pg s0 s1])
  have s2: "state_shape g ?Ut" by (rule state_shape_axpy[OF pg])
  have 4: "fill_state g ?Ut = Inr (fill_spec g ?Ut)" by (rule fill_state_ok[OF pg s2])
  show ?thesis
    by (simp only: rk2_predict_def 1 2 3 4 bindE_Inr scratch_vec_proper[OF pg] cols.simps)
qed

lemma rk2_step_ok:
  assumes pg: "proper_grid g" and sh: "state_shape g U" and rs: "flux_solver rs"
  shows "rk2_step rs g U dt =
    Inr (axpy g dt
           (divergence_spec rs g
              (fill_spec g (axpy g (fmul (Fin 0.5) dt) (divergence_spec rs g (fill_spec g U)) (fill_spec g U))))
           (fill_spec g U))"
proof -
  let ?U0 = "fill_spec g U"
  let ?Um = "fill_spec g (axpy g (fmul (Fin 0.5) dt) (divergence_spec rs g ?U0) ?U0)"
  let ?k2 = "divergence_spec rs g ?Um"
  have sm: "state_shape g ?Um" by (rule state_shape_fill_spec[OF pg])
  have 2: "make_flux_divergence rs g ?Um = Inr ?k2" by (rule make_flux_divergence_spec[OF pg sm rs])
  have s2: "state_shape g ?k2" by (rule state_shape_divergence_spec[OF pg])
  have 3: "for_cols NVAR (\<lambda>n un.
         bindE (py_col ?k2 n) (\<lambda>kn.
         bindE (np_bop fadd un (map (fmul dt) kn)) (\<lambda>v.
         set_slice 0 (int (length un)) v un))) ?U0 = Inr (axpy g dt ?k2 ?U0)"
    by (rule axpy_inplace_eq[OF pg s2 fill_spec_def])
  show ?thesis
    by (simp only: rk2_step_def rk2_predict_ok[OF pg sh rs] bindE_Inr prod.case 2 3)
qed

lemma fadd_zero [simp]: "fadd v (Fin 0) = v"
  by (cases v) simp_all

lemma ent_nth: "ent a i n = a ! n ! nat i"
  by (simp add: ent_def)


lemma interior_cells:
  assumes "proper_grid g"
  shows "map (\<lambda>i. F (nat i)) [ilo g .. ihi g] = map (\<lambda>k. F (nat (ilo g) + k)) [0 ..< nat (nx g)]"
proof (intro nth_equalityI)
  show "length (map (\<lambda>i. F (nat i)) [ilo g .. ihi g])
      = length (map (\<lambda>k. F (nat (ilo g) + k)) [0 ..< nat (nx g)])"
    using assms by (simp add: proper_grid_def)
next
  fix k assume "k < length (map (\<lambda>i. F (nat i)) [ilo g .. ihi g])"
  then have k: "k < nat (nx g)" using assms by (simp add: proper_grid_def)
  then have "ilo g + int k \<le> ihi g" "nat (ilo g + int k) = nat (ilo g) + k"
    using assms by (auto simp: proper_grid_def)
  then show "map (\<lambda>i. F (nat i)) [ilo g .. ihi g] ! k
      = map (\<lambda>k. F (nat (ilo g) + k)) [0 ..< nat (nx g)] ! k"
    using k assms by (simp add: proper_grid_def)
qed

lemma signal_speed_moderate:
  fixes r u p :: real
  assumes r: "1 / 2 ^ 100 \<le> r" "r \<le> 2 ^ 100" and u: "\<bar>u\<bar> \<le> 2 ^ 100"
    and p: "1 / 2 ^ 100 \<le> p" "p \<le> 2 ^ 100"
  shows "1 / 2 ^ 100 \<le> \<bar>u\<bar> + sqrt (1.4 * p / r)" "\<bar>u\<bar> + sqrt (1.4 * p / r) \<le> 2 ^ 102"
proof -
  have tiny: "(0::real) < 1 / 2 ^ 100" by simp
  have rp: "0 < r" "0 < p" using r p tiny by linarith+
  have "1 / 2 ^ 100 / 2 ^ 100 \<le> p / r"
    using r p rp by (intro frac_le) simp_all
  then have "(1 / 2 ^ 100)\<^sup>2 \<le> p / r" by (simp add: power2_eq_square)
  also have "p / r \<le> 1.4 * p / r"
  proof -
    have "p \<le> 1.4 * p" using rp by simp
    then show ?thesis using rp by (intro divide_right_mono) simp_all
  qed
  finally have "1 / 2 ^ 100 \<le> sqrt (1.4 * p / r)" by (rule real_le_rsqrt)
  then show "1 / 2 ^ 100 \<le> \<bar>u\<bar> + sqrt (1.4 * p / r)" by linarith
  have "1.4 * p / r \<le> 1.4 * 2 ^ 100 / (1 / 2 ^ 100)"
    using r p rp by (intro frac_le) simp_all
  also have "\<dots> \<le> (2 ^ 101)\<^sup>2" by (simp add: power2_eq_square)
  finally have "sqrt (1.4 * p / r) \<le> 2 ^ 101" by (intro real_le_lsqrt) simp_all
  with u show "\<bar>u\<bar> + sqrt (1.4 * p / r) \<le> 2 ^ 102" by simp
qed

lemma prim_real_moderate:
  assumes size: "1 / 2 ^ 100 \<le> \<bar>rho\<bar>" "\<bar>rho\<bar> \<le> 2 ^ 100" "\<bar>mx\<bar> \<le> 2 ^ 100" "\<bar>e\<bar> \<le> 2 ^ 100"
  shows "\<bar>prim_real rho mx e n\<bar> \<le> 2 ^ 500"
proof -
  have tiny: "(0::real) < 1 / 2 ^ 100" by simp
  have r0: "0 < \<bar>rho\<bar>" using size(1) tiny by linarith
  let ?u = "\<bar>mx / rho\<bar>"
  have "?u = \<bar>mx\<bar> / \<bar>rho\<bar>" by (rule abs_divide)
  also have "\<dots> \<le> 2 ^ 100 / (1 / 2 ^ 100)"
    using size r0 by (intro frac_le) simp_all
  also have "\<dots> = 2 ^ 200" by simp
  finally have u: "?u \<le> 2 ^ 200" .
  have u0: "0 \<le> ?u" by simp
  have "(mx / rho)\<^sup>2 = ?u * ?u" by (simp add: power2_eq_square)
  also have "\<dots> \<le> 2 ^ 200 * 2 ^ 200" using u u0 by (intro mult_mono) simp_all
  also have "\<dots> = 2 ^ 400" by simp
  finally have u2: "(mx / rho)\<^sup>2 \<le> 2 ^ 400" .
  have k0: "0 \<le> (mx / rho)\<^sup>2" by simp
  have "\<bar>0.5 * rho * (mx / rho)\<^sup>2\<bar> = 0.5 * (\<bar>rho\<bar> * (mx / rho)\<^sup>2)"
    by (simp add: abs_mult)
  also have "\<bar>rho\<bar> * (mx / rho)\<^sup>2 \<le> 2 ^ 100 * 2 ^ 400"
    using size(2) u2 k0 by (intro mult_mono) simp_all
  finally have ke: "\<bar>0.5 * rho * (mx / rho)\<^sup>2\<bar> \<le> 0.5 * (2 ^ 100 * 2 ^ 400)" by simp
  have am: "\<bar>x * (1.4 - 1)\<bar> = \<bar>x\<bar> * 0.4" for x :: real
    by (simp add: abs_mult)
  have "\<bar>(e - 0.5 * rho * (mx / rho)\<^sup>2) * (1.4 - 1)\<bar>
      = \<bar>e - 0.5 * rho * (mx / rho)\<^sup>2\<bar> * 0.4"
    by (rule am)
  also have "\<dots> \<le> (\<bar>e\<bar> + \<bar>0.5 * rho * (mx / rho)\<^sup>2\<bar>) * 0.4"
    by (intro mult_right_mono abs_triangle_ineq4) simp
  also have "\<dots> \<le> (2 ^ 100 + 0.5 * (2 ^ 100 * 2 ^ 400)) * 0.4"
    using size(4) ke by (intro mult_right_mono add_mono) simp_all
  also have "\<dots> \<le> 2 ^ 500" by simp
  finally have p: "\<bar>(e - 0.5 * rho * (mx / rho)\<^sup>2) * (1.4 - 1)\<bar> \<le> 2 ^ 500" .
  have r: "\<bar>rho\<bar> \<le> 2 ^ 500" using size(2) by simp
  have v: "\<bar>mx / rho\<bar> \<le> 2 ^ 500" using u by simp
  show ?thesis unfolding prim_real_def
  proof (cases "n = QRHO")
    case True
    then show "\<bar>if n = QRHO then rho else if n = QU then mx / rho
        else (e - 0.5 * rho * (mx / rho)\<^sup>2) * (1.4 - 1)\<bar> \<le> 2 ^ 500"
      using r by (simp only: if_P if_not_P if_True if_False)
  next
    case False
    show "\<bar>if n = QRHO then rho else if n = QU then mx / rho
        else (e - 0.5 * rho * (mx / rho)\<^sup>2) * (1.4 - 1)\<bar> \<le> 2 ^ 500"
    proof (cases "n = QU")
      case True
      with False show ?thesis using v by (simp only: if_P if_not_P if_True if_False)
    next
      case qu: False
      with False show ?thesis using p by (simp only: if_P if_not_P if_True if_False)
    qed
  qed
qed

section \<open>Grid construction\<close>

text \<open>
  Claim C3, as the specification states it: constructing a grid with \<open>nx \<le> 0\<close>, with
  \<open>ng < 2\<close> or with \<open>xmin \<ge> xmax\<close> is rejected. The constructor has no such check.
  It returns a grid for one ghost cell, for a negative cell count and for reversed
  bounds; each of the three inputs below breaks exactly one of the three conditions.
\<close>

theorem FVGrid_accepts_invalid_configurations:
  "FVGrid 2 1 0 1 = Inr \<lparr>xmin = 0, xmax = 1, ng = 1, nx = 2, ilo = 1, ihi = 2, dx = 1 / 2,
                          xcoord = [-1/4, 1/4, 3/4, 5/4]\<rparr>
   \<and> FVGrid (-1) 2 0 1 = Inr \<lparr>xmin = 0, xmax = 1, ng = 2, nx = -1, ilo = 2, ihi = 0, dx = -1,
                          xcoord = [3/2, 1/2, -1/2]\<rparr>
   \<and> FVGrid 1 2 1 0 = Inr \<lparr>xmin = 1, xmax = 0, ng = 2, nx = 1, ilo = 2, ihi = 2, dx = -1,
                          xcoord = [5/2, 3/2, 1/2, -1/2, -3/2]\<rparr>"
  by (simp add: FVGrid_def float_of_int_overflows_def upt_rec)

text \<open>
  Claim C3, amended: constructing a grid with \<open>nx = 0\<close> fails fast, whatever the
  other arguments are: Python's division raises ZeroDivisionError while \<open>dx\<close> is
  computed, and no grid is returned. The constructor checks for none of the
  conditions of the claim: a negative \<open>nx\<close>, \<open>ng < 2\<close> and \<open>xmin \<ge> xmax\<close> pass, as
  shown above.
\<close>

theorem FVGrid_rejects_zero_cells:
  "FVGrid 0 n_g x_min x_max = Inl ZeroDivisionError"
  by (simp add: FVGrid_def float_of_int_overflows_def)

section \<open>Boundary fill\<close>

text \<open>
  Claim C10: on a grid with at least one interior cell, \<open>fill_BCs\<close> applied to a field
  of ghosted length, one-dimensional or two-dimensional, returns a field of the same
  length in which every interior entry, at the indices \<open>ilo..ihi\<close>, is the entry the
  field had before the call.
\<close>

theorem fill_BCs_interior_unchanged:
  assumes g: "FVGrid n_x n_g x_min x_max = Inr g"
    and n: "1 \<le> n_x" "0 \<le> n_g"
    and len: "ghosted (nat (n_x + 2 * n_g)) atmp"
  shows "\<exists>a'. fill_BCs g atmp = Inr a' \<and> ghosted (nat (n_x + 2 * n_g)) a' \<and>
           (\<forall>i. ilo g \<le> i \<and> i \<le> ihi g \<longrightarrow> entry a' (nat i) = entry atmp (nat i))"
proof -
  have b: "0 \<le> ilo g" "ilo g \<le> ihi g"
    using FVGrid_fields[OF g] n by auto
  have hi: "ihi g < int (nat (n_x + 2 * n_g))"
    using FVGrid_fields[OF g] n by auto
  show ?thesis
  proof (cases atmp)
    case (Scalar a)
    then have "ihi g < int (length a)" using len hi by simp
    from fill_col_same[OF b this] Scalar len show ?thesis
      by (auto simp: fill_BCs_def)
  next
    case (Vector cs)
    have each: "\<forall>n<length cs. fill_col g (cs ! n) =
        Inr (map (\<lambda>i. if i < nat (ilo g) then cs ! n ! nat (ilo g)
                        else if nat (ihi g) < i then cs ! n ! nat (ihi g) else cs ! n ! i)
               [0 ..< length (cs ! n)])"
    proof (intro allI impI)
      fix n assume "n < length cs"
      then have "ihi g < int (length (cs ! n))" using Vector len hi by simp
      from fill_col_ok[OF b this]
      show "fill_col g (cs ! n) =
        Inr (map (\<lambda>i. if i < nat (ilo g) then cs ! n ! nat (ilo g)
                        else if nat (ihi g) < i then cs ! n ! nat (ihi g) else cs ! n ! i)
               [0 ..< length (cs ! n)])" .
    qed
    show ?thesis
    proof (cases "length cs = 1")
      case True
      then obtain c where cs: "cs = [c]" by (cases cs) auto
      then have "ihi g < int (length c)" using len hi Vector by simp
      from fill_col_same[OF b this] cs Vector len show ?thesis
        by (auto simp: fill_BCs_def)
    next
      case False
      have "for_cols (length cs) (\<lambda>n. fill_col g) cs =
          Inr (map (\<lambda>n. map (\<lambda>i. if i < nat (ilo g) then cs ! n ! nat (ilo g)
                        else if nat (ihi g) < i then cs ! n ! nat (ihi g) else cs ! n ! i)
               [0 ..< length (cs ! n)]) [0 ..< length cs] @ drop (length cs) cs)"
        by (rule for_cols_ok) (use each in auto)
      then have r: "fill_BCs g atmp = Inr (Vector (map (\<lambda>n. map (\<lambda>i. if i < nat (ilo g) then cs ! n ! nat (ilo g)
                        else if nat (ihi g) < i then cs ! n ! nat (ihi g) else cs ! n ! i)
               [0 ..< length (cs ! n)]) [0 ..< length cs]))" (is "_ = Inr (Vector ?cs')")
        using False Vector by (simp add: fill_BCs_def)
      have g': "ghosted (nat (n_x + 2 * n_g)) (Vector ?cs')"
        using Vector len by auto
      have "entry (Vector ?cs') (nat i) = entry atmp (nat i)" if i: "ilo g \<le> i \<and> i \<le> ihi g" for i
      proof -
        have ni: "nat i < nat (n_x + 2 * n_g)" "\<not> nat i < nat (ilo g)" "\<not> nat (ihi g) < nat i"
          using i b hi by linarith+
        show ?thesis using Vector len ni
          by (auto intro!: nth_equalityI)
      qed
      with r g' show ?thesis by blast
    qed
  qed
qed

theorem fill_BCs_interior_unchanged_witness:
  "FVGrid 2 2 0 1 = Inr example_grid \<and>
   ghosted (nat (2 + 2 * 2))
     (Vector [[Fin 1, Fin 2, Fin 3, Fin 4, Fin 5, Fin 6],
              [Fin 0, Fin 0, Fin 7, Fin 8, Fin 0, Fin 0],
              [NaN, PInf, Fin 9, Fin 10, NInf, NaN]]) \<and>
   (\<exists>a'. fill_BCs example_grid
            (Vector [[Fin 1, Fin 2, Fin 3, Fin 4, Fin 5, Fin 6],
                     [Fin 0, Fin 0, Fin 7, Fin 8, Fin 0, Fin 0],
                     [NaN, PInf, Fin 9, Fin 10, NInf, NaN]]) = Inr a' \<and>
         ghosted (nat (2 + 2 * 2)) a' \<and>
         (\<forall>i. ilo example_grid \<le> i \<and> i \<le> ihi example_grid \<longrightarrow>
              entry a' (nat i) =
              entry (Vector [[Fin 1, Fin 2, Fin 3, Fin 4, Fin 5, Fin 6],
                             [Fin 0, Fin 0, Fin 7, Fin 8, Fin 0, Fin 0],
                             [NaN, PInf, Fin 9, Fin 10, NInf, NaN]]) (nat i)))"
proof -
  let ?f = "Vector [[Fin 1, Fin 2, Fin 3, Fin 4, Fin 5, Fin 6],
                    [Fin 0, Fin 0, Fin 7, Fin 8, Fin 0, Fin 0],
                    [NaN, PInf, Fin 9, Fin 10, NInf, NaN]]"
  have s: "ghosted (nat (2 + 2 * 2)) ?f" by simp
  have n: "(1::int) \<le> 2" "(0::int) \<le> 2" by simp_all
  from fill_BCs_interior_unchanged[OF FVGrid_example n s] FVGrid_example s
  show ?thesis by blast
qed

section \<open>Reconstruction\<close>

text \<open>
  Claim C5: on a grid with at least two ghost cells (and at least one interior cell)
  and a conserved state \<open>U\<close> of the grid's shape, \<open>states\<close> returns. With \<open>q\<close> the
  primitive conversion of \<open>U\<close> and \<open>dq\<close> the slope array, every component has
  \<open>dq[i] = 0.5 (q[i+1] - q[i-1])\<close> for \<open>i\<close> in \<open>ilo-1 .. ihi+1\<close>, and at every interface
  \<open>i\<close> in \<open>ilo .. ihi+1\<close> the returned states are \<open>q_l[i] = q[i-1] + 0.5 dq[i-1]\<close> and
  \<open>q_r[i] = q[i] - 0.5 dq[i]\<close>.
\<close>

theorem states_reconstruction:
  assumes "FVGrid n_x n_g x_min x_max = Inr g" and "1 \<le> n_x" "2 \<le> n_g"
    and "state_shape g U"
  shows "\<exists>q dq q_l q_r.
    cons_to_prim g U = Inr q \<and> slopes g q = Inr dq \<and> states g U = Inr (q_l, q_r) \<and>
    (\<forall>i n. 0 \<le> i \<and> i < nx g + 2 * ng g \<and> n < NVAR \<longrightarrow>
       ent q i n = to_primitive U (nat i) n) \<and>
    (\<forall>i n. ilo g - 1 \<le> i \<and> i \<le> ihi g + 1 \<and> n < NVAR \<longrightarrow>
       ent dq i n = fmul (Fin 0.5) (fsub (ent q (i + 1) n) (ent q (i - 1) n))) \<and>
    (\<forall>i n. ilo g \<le> i \<and> i \<le> ihi g + 1 \<and> n < NVAR \<longrightarrow>
       ent q_l i n = fadd (ent q (i - 1) n) (fmul (Fin 0.5) (ent dq (i - 1) n)) \<and>
       ent q_r i n = fsub (ent q i n) (fmul (Fin 0.5) (ent dq i n)))"
  using assms by (rule reconstruction_entries)

theorem states_reconstruction_witness:
  "FVGrid 2 2 0 1 = Inr example_grid \<and> state_shape example_grid example_state \<and>
   (\<exists>q dq q_l q_r.
      cons_to_prim example_grid example_state = Inr q \<and> slopes example_grid q = Inr dq \<and>
      states example_grid example_state = Inr (q_l, q_r) \<and>
      ent dq 1 QRHO = fmul (Fin 0.5) (fsub (ent q 2 QRHO) (ent q 0 QRHO)) \<and>
      ent q_l 4 QRHO = fadd (ent q 3 QRHO) (fmul (Fin 0.5) (ent dq 3 QRHO)) \<and>
      ent q_r 4 QRHO = fsub (ent q 4 QRHO) (fmul (Fin 0.5) (ent dq 4 QRHO)))"
proof -
  have sh: "state_shape example_grid example_state"
    by (simp add: state_shape_def example_state_def example_grid_def NVAR_def)
  have n: "(1::int) \<le> 2" "(2::int) \<le> 2" by simp_all
  from states_reconstruction[OF FVGrid_example n sh] obtain q dq q_l q_r where
    1: "cons_to_prim example_grid example_state = Inr q" "slopes example_grid q = Inr dq"
      "states example_grid example_state = Inr (q_l, q_r)"
    and dq: "\<And>i n. ilo example_grid - 1 \<le> i \<and> i \<le> ihi example_grid + 1 \<and> n < NVAR \<Longrightarrow>
       ent dq i n = fmul (Fin 0.5) (fsub (ent q (i + 1) n) (ent q (i - 1) n))"
    and lr: "\<And>i n. ilo example_grid \<le> i \<and> i \<le> ihi example_grid + 1 \<and> n < NVAR \<Longrightarrow>
       ent q_l i n = fadd (ent q (i - 1) n) (fmul (Fin 0.5) (ent dq (i - 1) n)) \<and>
       ent q_r i n = fsub (ent q i n) (fmul (Fin 0.5) (ent dq i n))"
    by blast
  have a: "ent dq 1 QRHO = fmul (Fin 0.5) (fsub (ent q 2 QRHO) (ent q 0 QRHO))"
    using dq[of 1 QRHO] by (simp add: example_grid_def NVAR_def QRHO_def)
  have b: "ent q_l 4 QRHO = fadd (ent q 3 QRHO) (fmul (Fin 0.5) (ent dq 3 QRHO)) \<and>
      ent q_r 4 QRHO = fsub (ent q 4 QRHO) (fmul (Fin 0.5) (ent dq 4 QRHO))"
    using lr[of 4 QRHO] by (simp add: example_grid_def NVAR_def QRHO_def)
  from FVGrid_example sh 1 a b show ?thesis by blast
qed

text \<open>
  Claim C9, as the specification states it for every spatially uniform conserved
  state: all slopes are zero and the reconstructed states equal the primitive values.
  The state that is zero in every cell is uniform, and it is the one that
  \<open>scratch_array\<close> returns. Its velocity is \<open>0 / 0\<close>, which is NaN, and so is its
  pressure: the slopes of both in the cells \<open>ilo-1 .. ihi+1\<close> are NaN and not zero, and
  so are the left and right states at the interfaces \<open>ilo .. ihi+1\<close>.
\<close>

theorem zero_state_slopes_not_zero:
  "scratch_array example_grid NVAR = Inr (Vector zero_state) \<and>
   cons_to_prim example_grid zero_state =
     Inr [[Fin 0, Fin 0, Fin 0, Fin 0, Fin 0, Fin 0],
          [NaN, NaN, NaN, NaN, NaN, NaN],
          [NaN, NaN, NaN, NaN, NaN, NaN]] \<and>
   slopes example_grid [[Fin 0, Fin 0, Fin 0, Fin 0, Fin 0, Fin 0],
                        [NaN, NaN, NaN, NaN, NaN, NaN],
                        [NaN, NaN, NaN, NaN, NaN, NaN]] =
     Inr [[Fin 0, Fin 0, Fin 0, Fin 0, Fin 0, Fin 0],
          [Fin 0, NaN, NaN, NaN, NaN, Fin 0],
          [Fin 0, NaN, NaN, NaN, NaN, Fin 0]] \<and>
   states example_grid zero_state =
     Inr ([[Fin 0, Fin 0, Fin 0, Fin 0, Fin 0, Fin 0],
           [Fin 0, Fin 0, NaN, NaN, NaN, Fin 0],
           [Fin 0, Fin 0, NaN, NaN, NaN, Fin 0]],
          [[Fin 0, Fin 0, Fin 0, Fin 0, Fin 0, Fin 0],
           [Fin 0, Fin 0, NaN, NaN, NaN, Fin 0],
           [Fin 0, Fin 0, NaN, NaN, NaN, Fin 0]])"
  by code_simp

text \<open>
  Claim C9, amended: for a spatially uniform conserved state, every cell holding the
  same finite values \<open>(\<rho>, \<rho>u, \<rho>E)\<close> with \<open>1 / 2 ^ 100 \<le> |\<rho>| \<le> 2 ^ 100\<close>,
  \<open>|\<rho>u| \<le> 2 ^ 100\<close> and \<open>|\<rho>E| \<le> 2 ^ 100\<close>, every cell has the same finite primitive
  values, of size \<open>2 ^ 500\<close> at most; all the slopes computed are zero, and the left
  and right states at every interface \<open>ilo .. ihi+1\<close> are exactly those primitive
  values. The bounds keep the density away from zero and every intermediate result of
  the primitive conversion below \<open>2 ^ 500\<close> in size, so that the conversion overflows
  nowhere; the difference of two equal finite numbers is zero in \<open>float64\<close> as it is
  here.
\<close>

theorem uniform_state_reconstruction:
  assumes g: "FVGrid n_x n_g x_min x_max = Inr g" and n: "1 \<le> n_x" "2 \<le> n_g"
    and sh: "state_shape g U"
    and un: "\<forall>i. i < nat (nx g + 2 * ng g) \<longrightarrow>
               U ! URHO ! i = Fin rho \<and> U ! UMX ! i = Fin mx \<and> U ! UENER ! i = Fin e"
    and size: "1 / 2 ^ 100 \<le> \<bar>rho\<bar>" "\<bar>rho\<bar> \<le> 2 ^ 100" "\<bar>mx\<bar> \<le> 2 ^ 100" "\<bar>e\<bar> \<le> 2 ^ 100"
  shows "\<exists>q dq q_l q_r.
    cons_to_prim g U = Inr q \<and> slopes g q = Inr dq \<and> states g U = Inr (q_l, q_r) \<and>
    (\<forall>i n. 0 \<le> i \<and> i < nx g + 2 * ng g \<and> n < NVAR \<longrightarrow>
       ent q i n = Fin (prim_real rho mx e n)) \<and>
    (\<forall>i n. ilo g - 1 \<le> i \<and> i \<le> ihi g + 1 \<and> n < NVAR \<longrightarrow> ent dq i n = Fin 0) \<and>
    (\<forall>i n. ilo g \<le> i \<and> i \<le> ihi g + 1 \<and> n < NVAR \<longrightarrow>
       ent q_l i n = Fin (prim_real rho mx e n) \<and> ent q_r i n = Fin (prim_real rho mx e n)) \<and>
    (\<forall>n. n < NVAR \<longrightarrow> \<bar>prim_real rho mx e n\<bar> \<le> 2 ^ 500)"
proof -
  have pg: "proper_grid g" by (rule FVGrid_proper[OF g n])
  note b = proper_grid_bounds[OF pg]
  have "(0::real) < 1 / 2 ^ 100" by simp
  with size(1) have rho: "rho \<noteq> 0" by linarith
  from reconstruction_entries[OF g n sh] obtain q dq q_l q_r where
    1: "cons_to_prim g U = Inr q" "slopes g q = Inr dq" "states g U = Inr (q_l, q_r)"
    and q: "\<And>i n. 0 \<le> i \<and> i < nx g + 2 * ng g \<and> n < NVAR \<Longrightarrow> ent q i n = to_primitive U (nat i) n"
    and dq: "\<And>i n. ilo g - 1 \<le> i \<and> i \<le> ihi g + 1 \<and> n < NVAR \<Longrightarrow>
       ent dq i n = fmul (Fin 0.5) (fsub (ent q (i + 1) n) (ent q (i - 1) n))"
    and lr: "\<And>i n. ilo g \<le> i \<and> i \<le> ihi g + 1 \<and> n < NVAR \<Longrightarrow>
       ent q_l i n = fadd (ent q (i - 1) n) (fmul (Fin 0.5) (ent dq (i - 1) n)) \<and>
       ent q_r i n = fsub (ent q i n) (fmul (Fin 0.5) (ent dq i n))"
    by blast
  have q': "ent q i n = Fin (prim_real rho mx e n)"
    if r: "0 \<le> i \<and> i < nx g + 2 * ng g \<and> n < NVAR" for i n
  proof -
    have "nat i < nat (nx g + 2 * ng g)" using r by linarith
    with un have "U ! URHO ! nat i = Fin rho" "U ! UMX ! nat i = Fin mx" "U ! UENER ! nat i = Fin e"
      by blast+
    from to_primitive_uniform[OF rho _ this] r q[OF r] show ?thesis by simp
  qed
  have dq': "ent dq i n = Fin 0" if r: "ilo g - 1 \<le> i \<and> i \<le> ihi g + 1 \<and> n < NVAR" for i n
  proof -
    have "0 \<le> i + 1 \<and> i + 1 < nx g + 2 * ng g \<and> n < NVAR"
      "0 \<le> i - 1 \<and> i - 1 < nx g + 2 * ng g \<and> n < NVAR"
      using r b by linarith+
    then show ?thesis using dq[OF r] by (simp add: q' fsub_def)
  qed
  have lr': "ent q_l i n = Fin (prim_real rho mx e n) \<and> ent q_r i n = Fin (prim_real rho mx e n)"
    if r: "ilo g \<le> i \<and> i \<le> ihi g + 1 \<and> n < NVAR" for i n
  proof -
    have "0 \<le> i \<and> i < nx g + 2 * ng g \<and> n < NVAR"
      "0 \<le> i - 1 \<and> i - 1 < nx g + 2 * ng g \<and> n < NVAR"
      "ilo g - 1 \<le> i \<and> i \<le> ihi g + 1 \<and> n < NVAR"
      "ilo g - 1 \<le> i - 1 \<and> i - 1 \<le> ihi g + 1 \<and> n < NVAR"
      using r b by linarith+
    then show ?thesis using lr[OF r] by (simp add: q' dq' fsub_def)
  qed
  have sz: "\<bar>prim_real rho mx e n\<bar> \<le> 2 ^ 500" for n
    by (rule prim_real_moderate[OF size])
  from 1 q' dq' lr' sz show ?thesis by blast
qed

theorem uniform_state_reconstruction_witness:
  "FVGrid 2 2 0 1 = Inr example_grid \<and> state_shape example_grid uniform_state \<and>
   (\<exists>q dq q_l q_r.
      cons_to_prim example_grid uniform_state = Inr q \<and> slopes example_grid q = Inr dq \<and>
      states example_grid uniform_state = Inr (q_l, q_r) \<and>
      ent dq 1 QU = Fin 0 \<and> ent dq 4 QU = Fin 0 \<and>
      ent q_l 2 QU = Fin 2 \<and> ent q_r 2 QU = Fin 2 \<and>
      ent q_l 4 QP = Fin (6/5) \<and> ent q_r 4 QP = Fin (6/5))"
proof -
  have sh: "state_shape example_grid uniform_state"
    by (simp add: state_shape_def uniform_state_def example_grid_def NVAR_def)
  have n: "(1::int) \<le> 2" "(2::int) \<le> 2" by simp_all
  have un: "\<forall>i. i < nat (nx example_grid + 2 * ng example_grid) \<longrightarrow>
      uniform_state ! URHO ! i = Fin 1 \<and> uniform_state ! UMX ! i = Fin 2 \<and>
      uniform_state ! UENER ! i = Fin 5"
    by (simp add: example_grid_def uniform_state_def URHO_def UMX_def UENER_def
          nth_Cons' less_Suc_eq numeral_eq_Suc)
  have size: "1 / 2 ^ 100 \<le> \<bar>1::real\<bar>" "\<bar>1::real\<bar> \<le> 2 ^ 100" "\<bar>2::real\<bar> \<le> 2 ^ 100"
    "\<bar>5::real\<bar> \<le> 2 ^ 100"
    by simp_all
  from uniform_state_reconstruction[OF FVGrid_example n sh un size] obtain q dq q_l q_r where
    1: "cons_to_prim example_grid uniform_state = Inr q" "slopes example_grid q = Inr dq"
      "states example_grid uniform_state = Inr (q_l, q_r)"
    and dq: "\<And>i n. ilo example_grid - 1 \<le> i \<and> i \<le> ihi example_grid + 1 \<and> n < NVAR \<Longrightarrow>
       ent dq i n = Fin 0"
    and lr: "\<And>i n. ilo example_grid \<le> i \<and> i \<le> ihi example_grid + 1 \<and> n < NVAR \<Longrightarrow>
       ent q_l i n = Fin (prim_real 1 2 5 n) \<and> ent q_r i n = Fin (prim_real 1 2 5 n)"
    by blast
  have a: "ent dq 1 QU = Fin 0" "ent dq 4 QU = Fin 0"
    using dq[of 1 QU] dq[of 4 QU] by (simp_all add: example_grid_def NVAR_def QU_def)
  have b: "ent q_l 2 QU = Fin 2 \<and> ent q_r 2 QU = Fin 2"
    using lr[of 2 QU] by (simp add: example_grid_def NVAR_def QU_def QRHO_def prim_real_def)
  have c: "ent q_l 4 QP = Fin (6/5) \<and> ent q_r 4 QP = Fin (6/5)"
    using lr[of 4 QP]
    by (simp add: example_grid_def NVAR_def QU_def QRHO_def QP_def prim_real_def power2_eq_square)
  from FVGrid_example sh 1 a b c show ?thesis by blast
qed

section \<open>Flux divergence\<close>

text \<open>
  Claim C6: on a proper grid, a state of the grid's shape and a solver returning
  \<open>NVAR\<close> components, \<open>make_flux_divergence\<close> returns an array \<open>A\<close> of the state's
  shape. The loop visits the interfaces \<open>ilo .. ihi+1\<close>, each once, and stores
  \<open>flux[i] = riemann(q_l[i], q_r[i], gamma)\<close>; then \<open>A[i] = (flux[i] - flux[i+1]) / dx\<close>
  for every interior cell \<open>i\<close> in \<open>ilo .. ihi\<close>, and \<open>A\<close> is zero in every other cell.
\<close>

theorem make_flux_divergence_formula:
  assumes g: "FVGrid n_x n_g x_min x_max = Inr g" and n: "1 \<le> n_x" "2 \<le> n_g"
    and sh: "state_shape g U" and rs: "flux_solver rs"
  shows "\<exists>q_l q_r flux A.
    states g U = Inr (q_l, q_r) \<and> riemann_fluxes rs g U = Inr flux \<and>
    make_flux_divergence rs g U = Inr A \<and> state_shape g A \<and>
    distinct (py_range (ilo g) (ihi g + 2)) \<and>
    set (py_range (ilo g) (ihi g + 2)) = {ilo g .. ihi g + 1} \<and>
    (\<forall>i n. ilo g \<le> i \<and> i \<le> ihi g + 1 \<and> n < NVAR \<longrightarrow>
       ent flux i n = rs (row_at q_l i) (row_at q_r i) gamma ! n) \<and>
    (\<forall>i n. ilo g \<le> i \<and> i \<le> ihi g \<and> n < NVAR \<longrightarrow>
       ent A i n = fdiv (fsub (ent flux i n) (ent flux (i + 1) n)) (Fin (dx g))) \<and>
    (\<forall>i n. 0 \<le> i \<and> i < nx g + 2 * ng g \<and> \<not> (ilo g \<le> i \<and> i \<le> ihi g) \<and> n < NVAR \<longrightarrow>
       ent A i n = Fin 0)"
proof -
  let ?N = "nat (nx g + 2 * ng g)"
  let ?Ql = "\<lambda>i n. if ilo g \<le> int i \<and> int i < ihi g + 2 then q_left_spec U i n else Fin 0"
  let ?Qr = "\<lambda>i n. if ilo g \<le> int i \<and> int i < ihi g + 2 then q_right_spec U i n else Fin 0"
  let ?F = "\<lambda>i n. if ilo g \<le> int i \<and> int i < ihi g + 2 then flux_spec rs U i n else Fin 0"
  let ?A = "\<lambda>i n. if ilo g \<le> int i \<and> int i < ihi g + 1 then rhs_spec rs g U i n else Fin 0"
  have pg: "proper_grid g" by (rule FVGrid_proper[OF g n])
  note b = proper_grid_bounds[OF pg]
  have 1: "states g U = Inr (table ?N ?Ql, table ?N ?Qr)" by (rule states_ok[OF pg sh])
  have 2: "riemann_fluxes rs g U = Inr (table ?N ?F)" by (rule riemann_fluxes_ok[OF pg sh rs])
  have 3: "make_flux_divergence rs g U = Inr (table ?N ?A)"
    by (rule make_flux_divergence_ok[OF pg sh rs])
  have 4: "state_shape g (table ?N ?A)" by (rule state_shape_table_proper[OF pg])
  have 5: "distinct (py_range (ilo g) (ihi g + 2))"
    "set (py_range (ilo g) (ihi g + 2)) = {ilo g .. ihi g + 1}"
    by (simp_all add: py_range_def)
  have 6: "ent (table ?N ?F) i n = rs (row_at (table ?N ?Ql) i) (row_at (table ?N ?Qr) i) gamma ! n"
    if r: "ilo g \<le> i \<and> i \<le> ihi g + 1 \<and> n < NVAR" for i n
  proof -
    have i: "0 \<le> i" "i < int ?N" using r b by linarith+
    have c: "ilo g \<le> int (nat i) \<and> int (nat i) < ihi g + 2" using r b by linarith
    have m: "map (?Ql (nat i)) [0 ..< NVAR] = map (q_left_spec U (nat i)) [0 ..< NVAR]"
      "map (?Qr (nat i)) [0 ..< NVAR] = map (q_right_spec U (nat i)) [0 ..< NVAR]"
      using c by simp_all
    show ?thesis using r c
      by (simp add: ent_table[OF i] row_at_table[OF i] m flux_spec_def)
  qed
  have 7: "ent (table ?N ?A) i n
      = fdiv (fsub (ent (table ?N ?F) i n) (ent (table ?N ?F) (i + 1) n)) (Fin (dx g))"
    if r: "ilo g \<le> i \<and> i \<le> ihi g \<and> n < NVAR" for i n
  proof -
    have i: "0 \<le> i" "i < int ?N" "0 \<le> i + 1" "i + 1 < int ?N" using r b by linarith+
    have c: "ilo g \<le> int (nat i) \<and> int (nat i) < ihi g + 2"
      "ilo g \<le> int (nat (i + 1)) \<and> int (nat (i + 1)) < ihi g + 2"
      "ilo g \<le> int (nat i) \<and> int (nat i) < ihi g + 1"
      using r b by linarith+
    have e: "nat (i + 1) = nat i + 1" using i by linarith
    show ?thesis using r c
      by (simp add: ent_table[OF i(1,2)] ent_table[OF i(3,4)] rhs_spec_def e)
  qed
  have 8: "ent (table ?N ?A) i n = Fin 0"
    if r: "0 \<le> i \<and> i < nx g + 2 * ng g \<and> \<not> (ilo g \<le> i \<and> i \<le> ihi g) \<and> n < NVAR" for i n
  proof -
    have i: "0 \<le> i" "i < int ?N" using r b by linarith+
    have c: "\<not> (ilo g \<le> int (nat i) \<and> int (nat i) < ihi g + 1)" using r b by linarith
    have "ent (table ?N ?A) i n = ?A (nat i) n" using r by (intro ent_table i) simp
    also have "\<dots> = Fin 0" using c by (simp only: if_False)
    finally show ?thesis .
  qed
  from 1 2 3 4 5 6 7 8 show ?thesis by blast
qed

theorem make_flux_divergence_formula_witness:
  "FVGrid 2 2 0 1 = Inr example_grid \<and> state_shape example_grid example_state \<and>
   flux_solver central_riemann \<and>
   (\<exists>q_l q_r flux A.
      states example_grid example_state = Inr (q_l, q_r) \<and>
      riemann_fluxes central_riemann example_grid example_state = Inr flux \<and>
      make_flux_divergence central_riemann example_grid example_state = Inr A \<and>
      ent flux 3 UMX = central_riemann (row_at q_l 3) (row_at q_r 3) gamma ! UMX \<and>
      ent A 3 UMX = fdiv (fsub (ent flux 3 UMX) (ent flux 4 UMX)) (Fin (dx example_grid)) \<and>
      ent A 1 UMX = Fin 0 \<and> ent A 4 UMX = Fin 0)"
proof -
  have sh: "state_shape example_grid example_state"
    by (simp add: state_shape_def example_state_def example_grid_def NVAR_def)
  have n: "(1::int) \<le> 2" "(2::int) \<le> 2" by simp_all
  have rs: "flux_solver central_riemann"
    by (simp add: flux_solver_def central_riemann_def euler_flux_def Let_def NVAR_def)
  from make_flux_divergence_formula[OF FVGrid_example n sh rs] obtain q_l q_r flux A where
    1: "states example_grid example_state = Inr (q_l, q_r)"
      "riemann_fluxes central_riemann example_grid example_state = Inr flux"
      "make_flux_divergence central_riemann example_grid example_state = Inr A"
    and f: "\<And>i n. ilo example_grid \<le> i \<and> i \<le> ihi example_grid + 1 \<and> n < NVAR \<Longrightarrow>
       ent flux i n = central_riemann (row_at q_l i) (row_at q_r i) gamma ! n"
    and a: "\<And>i n. ilo example_grid \<le> i \<and> i \<le> ihi example_grid \<and> n < NVAR \<Longrightarrow>
       ent A i n = fdiv (fsub (ent flux i n) (ent flux (i + 1) n)) (Fin (dx example_grid))"
    and z: "\<And>i n. 0 \<le> i \<and> i < nx example_grid + 2 * ng example_grid \<and>
       \<not> (ilo example_grid \<le> i \<and> i \<le> ihi example_grid) \<and> n < NVAR \<Longrightarrow> ent A i n = Fin 0"
    by blast
  have 2: "ent flux 3 UMX = central_riemann (row_at q_l 3) (row_at q_r 3) gamma ! UMX"
    using f[of 3 UMX] by (simp add: example_grid_def NVAR_def UMX_def)
  have 3: "ent A 3 UMX = fdiv (fsub (ent flux 3 UMX) (ent flux 4 UMX)) (Fin (dx example_grid))"
    using a[of 3 UMX] by (simp add: example_grid_def NVAR_def UMX_def)
  have 4: "ent A 1 UMX = Fin 0" "ent A 4 UMX = Fin 0"
    using z[of 1 UMX] z[of 4 UMX] by (simp_all add: example_grid_def NVAR_def UMX_def)
  from FVGrid_example sh rs 1 2 3 4 show ?thesis by blast
qed

section \<open>Timestep\<close>

text \<open>
  Claim C7: \<open>timestep\<close> returns \<open>dt = C dx / s_max\<close>, where \<open>s_max\<close> is the maximum,
  as numpy takes it, over the interior cells \<open>ilo .. ihi\<close> of the signal speed
  \<open>|u[i]| + c[i]\<close>, with \<open>c[i] = sqrt(\<gamma> p[i] / \<rho>[i])\<close> and \<open>(\<rho>, u, p)\<close> the primitive
  conversion of \<open>U\<close>. Whenever the signal speeds of the interior cells are finite
  numbers \<open>s i\<close>, \<open>s_max\<close> is the greatest of them.
\<close>

theorem timestep_formula:
  assumes g: "FVGrid n_x n_g x_min x_max = Inr g" and n: "1 \<le> n_x" "2 \<le> n_g"
    and sh: "state_shape g U"
  shows "\<exists>s_max. np_max (map (\<lambda>i. signal_speed U (nat i)) [ilo g .. ihi g]) = Inr s_max \<and>
           timestep g U = Inr (fdiv (fmul C (Fin (dx g))) s_max) \<and>
           ((\<forall>i. ilo g \<le> i \<and> i \<le> ihi g \<longrightarrow> signal_speed U (nat i) = Fin (s i)) \<longrightarrow>
              s_max = Fin (Max (s ` {ilo g .. ihi g})))"
proof -
  have pg: "proper_grid g" by (rule FVGrid_proper[OF g n])
  let ?w = "map (\<lambda>i. signal_speed U (nat i)) [ilo g .. ihi g]"
  have w: "?w = map (\<lambda>k. signal_speed U (nat (ilo g) + k)) [0 ..< nat (nx g)]"
    by (rule interior_cells[OF pg])
  have "?w \<noteq> []" unfolding w using pg by (simp add: proper_grid_def)
  then obtain v vs where vs: "?w = v # vs" by (cases ?w) auto
  let ?m = "foldl fmax v vs"
  have 1: "np_max ?w = Inr ?m" by (simp add: vs)
  have 2: "timestep g U = Inr (fdiv (fmul C (Fin (dx g))) ?m)"
    unfolding timestep_ok[OF pg sh] w[symmetric] 1 by simp
  have 3: "?m = Fin (Max (s ` {ilo g .. ihi g}))"
    if fin: "\<forall>i. ilo g \<le> i \<and> i \<le> ihi g \<longrightarrow> signal_speed U (nat i) = Fin (s i)"
  proof -
    have e: "?w = map Fin (map s [ilo g .. ihi g])" using fin by simp
    have ne: "map s [ilo g .. ihi g] \<noteq> []" using \<open>?w \<noteq> []\<close> by simp
    have "np_max ?w = Inr (Fin (Max (set (map s [ilo g .. ihi g]))))"
      unfolding e by (rule np_max_Fin[OF ne])
    then show ?thesis using 1 by simp
  qed
  from 1 2 3 show ?thesis by blast
qed

theorem timestep_formula_witness:
  "FVGrid 2 2 0 1 = Inr example_grid \<and> state_shape example_grid example_state \<and>
   signal_speed example_state 2 = Fin (sqrt (7/5)) \<and>
   signal_speed example_state 3 = Fin (sqrt (28/25)) \<and>
   np_max (map (\<lambda>i. signal_speed example_state (nat i)) [ilo example_grid .. ihi example_grid])
     = Inr (Fin (Max ((\<lambda>i. if i = 2 then sqrt (7/5) else sqrt (28/25)) `
                         {ilo example_grid .. ihi example_grid}))) \<and>
   timestep example_grid example_state =
     Inr (fdiv (fmul C (Fin (dx example_grid)))
            (Fin (Max ((\<lambda>i. if i = 2 then sqrt (7/5) else sqrt (28/25)) `
                         {ilo example_grid .. ihi example_grid}))))"
proof -
  let ?s = "\<lambda>i::int. if i = 2 then sqrt (7/5) else sqrt (28/25)"
  have sh: "state_shape example_grid example_state"
    by (simp add: state_shape_def example_state_def example_grid_def NVAR_def)
  have n: "(1::int) \<le> 2" "(2::int) \<le> 2" by simp_all
  have 2: "signal_speed example_state 2 = Fin (sqrt (7/5))"
    by (simp add: signal_speed_def sound_speed_def to_primitive_def example_state_def Let_def
          URHO_def UMX_def UENER_def QRHO_def QU_def QP_def gamma_def fsub_def)
  have 3: "signal_speed example_state 3 = Fin (sqrt (28/25))"
    by (simp add: signal_speed_def sound_speed_def to_primitive_def example_state_def Let_def
          URHO_def UMX_def UENER_def QRHO_def QU_def QP_def gamma_def fsub_def)
  have fin: "\<forall>i. ilo example_grid \<le> i \<and> i \<le> ihi example_grid \<longrightarrow>
      signal_speed example_state (nat i) = Fin (?s i)"
  proof (intro allI impI)
    fix i :: int assume "ilo example_grid \<le> i \<and> i \<le> ihi example_grid"
    then have "i = 2 \<or> i = 3" by (auto simp: example_grid_def)
    then show "signal_speed example_state (nat i) = Fin (?s i)"
      using 2 3 by auto
  qed
  from timestep_formula[OF FVGrid_example n sh, of ?s] obtain s_max where
    m: "np_max (map (\<lambda>i. signal_speed example_state (nat i))
                 [ilo example_grid .. ihi example_grid]) = Inr s_max"
    and t: "timestep example_grid example_state = Inr (fdiv (fmul C (Fin (dx example_grid))) s_max)"
    and e: "(\<forall>i. ilo example_grid \<le> i \<and> i \<le> ihi example_grid \<longrightarrow>
              signal_speed example_state (nat i) = Fin (?s i)) \<longrightarrow>
            s_max = Fin (Max (?s ` {ilo example_grid .. ihi example_grid}))"
    by blast
  from e fin have "s_max = Fin (Max (?s ` {ilo example_grid .. ihi example_grid}))" by blast
  with m t FVGrid_example sh 2 3 show ?thesis by blast
qed

text \<open>
  Claim C8, as the specification states it: \<open>timestep\<close> is strictly positive as soon
  as some interior cell has \<open>\<rho> > 0\<close> and \<open>p > 0\<close>. On the grid \<open>FVGrid(2, 2)\<close> the
  interior cell 2 of the state below has \<open>\<rho> = 1\<close> and \<open>p = 1\<close>, while the interior
  cell 3 has a negative pressure: its sound speed is the square root of a negative
  number, NaN, numpy's maximum is NaN, and so is the timestep.
\<close>

theorem timestep_not_positive:
  "FVGrid 2 2 0 1 = Inr example_grid \<and> state_shape example_grid unphysical_state \<and>
   ilo example_grid = 2 \<and> ihi example_grid = 3 \<and>
   to_primitive unphysical_state 2 QRHO = Fin 1 \<and> to_primitive unphysical_state 2 QP = Fin 1 \<and>
   timestep example_grid unphysical_state = Inr NaN"
proof -
  have "state_shape example_grid unphysical_state"
    by (simp add: state_shape_def unphysical_state_def example_grid_def NVAR_def)
  moreover have "ilo example_grid = 2" "ihi example_grid = 3"
    by (simp_all add: example_grid_def)
  moreover have "to_primitive unphysical_state 2 QRHO = Fin 1"
    "to_primitive unphysical_state 2 QP = Fin 1"
    by (simp_all add: to_primitive_def unphysical_state_def Let_def
          URHO_def UMX_def UENER_def QRHO_def QU_def QP_def gamma_def fsub_def)
  ultimately show ?thesis using FVGrid_example timestep_unphysical by blast
qed

text \<open>
  Claim C8, amended: \<open>timestep\<close> returns a finite, strictly positive value, between
  \<open>1 / 2 ^ 300\<close> and \<open>2 ^ 300\<close>, for every state whose interior cells all have finite
  primitive variables with \<open>\<rho> > 0\<close> and \<open>p > 0\<close> of moderate size:
  \<open>1 / 2 ^ 100 \<le> \<rho> \<le> 2 ^ 100\<close>, \<open>|u| \<le> 2 ^ 100\<close>, \<open>1 / 2 ^ 100 \<le> p \<le> 2 ^ 100\<close> and
  \<open>\<rho> u\<^sup>2 \<le> 2 ^ 40 p\<close>, on a grid with \<open>xmin < xmax\<close>, \<open>|xmin| \<le> 2 ^ 100\<close>,
  \<open>|xmax| \<le> 2 ^ 100\<close> and \<open>dx \<ge> 1 / 2 ^ 100\<close>. One physical cell is not enough, as the
  state above shows, so the condition is on every interior cell. Under the bounds no
  intermediate result of the computation exceeds \<open>2 ^ 300\<close> in size, and the pressure,
  the sound speed, the signal speed, \<open>C dx\<close> and the quotient are \<open>1 / 2 ^ 300\<close> at
  least: \<open>float64\<close> overflows nowhere, and nothing but a velocity term that is
  negligible beside the pressure or the sound speed can underflow. The bound on
  \<open>\<rho> u\<^sup>2 / p\<close> keeps the rounding error of the kinetic energy far below the pressure
  that is left when it is subtracted from the total energy.
\<close>

theorem timestep_positive:
  assumes g: "FVGrid n_x n_g x_min x_max = Inr g" and n: "1 \<le> n_x" "2 \<le> n_g"
    and x: "x_min < x_max" "\<bar>x_min\<bar> \<le> 2 ^ 100" "\<bar>x_max\<bar> \<le> 2 ^ 100" "1 / 2 ^ 100 \<le> dx g"
    and sh: "state_shape g U"
    and ph: "\<forall>i. ilo g \<le> i \<and> i \<le> ihi g \<longrightarrow>
       (\<exists>r u p. to_primitive U (nat i) QRHO = Fin r \<and> to_primitive U (nat i) QU = Fin u \<and>
                to_primitive U (nat i) QP = Fin p \<and>
                1 / 2 ^ 100 \<le> r \<and> r \<le> 2 ^ 100 \<and> \<bar>u\<bar> \<le> 2 ^ 100 \<and>
                1 / 2 ^ 100 \<le> p \<and> p \<le> 2 ^ 100 \<and> r * u\<^sup>2 \<le> 2 ^ 40 * p)"
  shows "\<exists>d. timestep g U = Inr (Fin d) \<and> 0 < d \<and> 1 / 2 ^ 300 \<le> d \<and> d \<le> 2 ^ 300"
proof -
  have pg: "proper_grid g" by (rule FVGrid_proper[OF g n])
  note b = proper_grid_bounds[OF pg]
  have tiny: "(0::real) < 1 / 2 ^ 100" by simp
  have "\<exists>v. signal_speed U (nat i) = Fin v \<and> 1 / 2 ^ 100 \<le> v \<and> v \<le> 2 ^ 102"
    if i: "ilo g \<le> i \<and> i \<le> ihi g" for i
  proof -
    from ph i obtain r u p where q: "to_primitive U (nat i) QRHO = Fin r"
        "to_primitive U (nat i) QU = Fin u" "to_primitive U (nat i) QP = Fin p"
      and sz: "1 / 2 ^ 100 \<le> r" "r \<le> 2 ^ 100" "\<bar>u\<bar> \<le> 2 ^ 100" "1 / 2 ^ 100 \<le> p" "p \<le> 2 ^ 100"
      by blast
    from sz tiny have pos: "0 < r" "0 < p" by linarith+
    from signal_speed_physical(1)[OF q pos] signal_speed_moderate[OF sz] show ?thesis by blast
  qed
  then obtain s where s: "\<forall>i. ilo g \<le> i \<and> i \<le> ihi g \<longrightarrow> signal_speed U (nat i) = Fin (s i)"
    and sl: "\<forall>i. ilo g \<le> i \<and> i \<le> ihi g \<longrightarrow> 1 / 2 ^ 100 \<le> s i"
    and su: "\<forall>i. ilo g \<le> i \<and> i \<le> ihi g \<longrightarrow> s i \<le> 2 ^ 102"
    by metis
  let ?m = "Max (s ` {ilo g .. ihi g})"
  have j: "ilo g \<le> ilo g \<and> ilo g \<le> ihi g" using pg by (simp add: proper_grid_def)
  have "s (ilo g) \<le> ?m" using j by (intro Max_ge) auto
  moreover have "1 / 2 ^ 100 \<le> s (ilo g)" using sl j by blast
  ultimately have ml: "1 / 2 ^ 100 \<le> ?m" by linarith
  have mu: "?m \<le> 2 ^ 102"
  proof (rule Max.boundedI)
    show "finite (s ` {ilo g .. ihi g})" by simp
    show "s ` {ilo g .. ihi g} \<noteq> {}" using j by auto
    show "a \<le> 2 ^ 102" if "a \<in> s ` {ilo g .. ihi g}" for a using that su by auto
  qed
  have m: "0 < ?m" using ml tiny by linarith
  have dxl: "1 / 2 ^ 100 \<le> dx g" by (rule x(4))
  have dxu: "dx g \<le> 2 ^ 101"
  proof -
    have "dx g = (x_max - x_min) / real_of_int n_x" by (rule FVGrid_fields(5)[OF g])
    also have "\<dots> \<le> (x_max - x_min) / 1"
      using x(1) n(1) by (intro divide_left_mono) simp_all
    also have "\<dots> \<le> 2 ^ 101" using x(2,3) by simp
    finally show ?thesis .
  qed
  have dx: "0 < dx g" using dxl tiny by linarith
  have "timestep g U = Inr (fdiv (fmul C (Fin (dx g))) (Fin ?m))"
    by (rule timestep_finite[OF g n sh s])
  also have "fdiv (fmul C (Fin (dx g))) (Fin ?m) = Fin (0.8 * dx g / ?m)"
    using m by (simp add: C_def)
  finally have t: "timestep g U = Inr (Fin (0.8 * dx g / ?m))" .
  have pos: "0 < 0.8 * dx g / ?m" using m dx by simp
  have "0.8 * (1 / 2 ^ 100) / 2 ^ 102 \<le> 0.8 * dx g / ?m"
    using dxl mu m by (intro frac_le) simp_all
  moreover have "(1::real) / 2 ^ 300 \<le> 0.8 * (1 / 2 ^ 100) / 2 ^ 102" by simp
  ultimately have lo: "1 / 2 ^ 300 \<le> 0.8 * dx g / ?m" by linarith
  have "0.8 * dx g / ?m \<le> 0.8 * 2 ^ 101 / (1 / 2 ^ 100)"
    using dxu ml dx by (intro frac_le) simp_all
  moreover have "0.8 * 2 ^ 101 / (1 / 2 ^ 100) \<le> (2::real) ^ 300" by simp
  ultimately have hi: "0.8 * dx g / ?m \<le> 2 ^ 300" by linarith
  from t pos lo hi show ?thesis by blast
qed

theorem timestep_positive_witness:
  "FVGrid 2 2 0 1 = Inr example_grid \<and> state_shape example_grid example_state \<and>
   dx example_grid = 1 / 2 \<and> ilo example_grid = 2 \<and> ihi example_grid = 3 \<and>
   to_primitive example_state 2 QRHO = Fin 1 \<and> to_primitive example_state 2 QU = Fin 0 \<and>
   to_primitive example_state 2 QP = Fin 1 \<and>
   to_primitive example_state 3 QRHO = Fin (1/8) \<and> to_primitive example_state 3 QU = Fin 0 \<and>
   to_primitive example_state 3 QP = Fin (1/10) \<and>
   (\<exists>d. timestep example_grid example_state = Inr (Fin d) \<and> 0 < d \<and>
        1 / 2 ^ 300 \<le> d \<and> d \<le> 2 ^ 300)"
proof -
  have sh: "state_shape example_grid example_state"
    by (simp add: state_shape_def example_state_def example_grid_def NVAR_def)
  have n: "(1::int) \<le> 2" "(2::int) \<le> 2" by simp_all
  have x: "(0::real) < 1" "\<bar>0::real\<bar> \<le> 2 ^ 100" "\<bar>1::real\<bar> \<le> 2 ^ 100"
    "1 / 2 ^ 100 \<le> dx example_grid"
    by (simp_all add: example_grid_def)
  have e: "dx example_grid = 1 / 2" "ilo example_grid = 2" "ihi example_grid = 3"
    by (simp_all add: example_grid_def)
  have q2: "to_primitive example_state 2 QRHO = Fin 1" "to_primitive example_state 2 QU = Fin 0"
    "to_primitive example_state 2 QP = Fin 1"
    by (simp_all add: to_primitive_def example_state_def Let_def
          URHO_def UMX_def UENER_def QRHO_def QU_def QP_def gamma_def fsub_def)
  have q3: "to_primitive example_state 3 QRHO = Fin (1/8)" "to_primitive example_state 3 QU = Fin 0"
    "to_primitive example_state 3 QP = Fin (1/10)"
    by (simp_all add: to_primitive_def example_state_def Let_def
          URHO_def UMX_def UENER_def QRHO_def QU_def QP_def gamma_def fsub_def)
  have ph: "\<forall>i. ilo example_grid \<le> i \<and> i \<le> ihi example_grid \<longrightarrow>
       (\<exists>r u p. to_primitive example_state (nat i) QRHO = Fin r \<and>
                to_primitive example_state (nat i) QU = Fin u \<and>
                to_primitive example_state (nat i) QP = Fin p \<and>
                1 / 2 ^ 100 \<le> r \<and> r \<le> 2 ^ 100 \<and> \<bar>u\<bar> \<le> 2 ^ 100 \<and>
                1 / 2 ^ 100 \<le> p \<and> p \<le> 2 ^ 100 \<and> r * u\<^sup>2 \<le> 2 ^ 40 * p)"
  proof (intro allI impI)
    fix i :: int assume "ilo example_grid \<le> i \<and> i \<le> ihi example_grid"
    then have "i = 2 \<or> i = 3" by (auto simp: example_grid_def)
    then show "\<exists>r u p. to_primitive example_state (nat i) QRHO = Fin r \<and>
                to_primitive example_state (nat i) QU = Fin u \<and>
                to_primitive example_state (nat i) QP = Fin p \<and>
                1 / 2 ^ 100 \<le> r \<and> r \<le> 2 ^ 100 \<and> \<bar>u\<bar> \<le> 2 ^ 100 \<and>
                1 / 2 ^ 100 \<le> p \<and> p \<le> 2 ^ 100 \<and> r * u\<^sup>2 \<le> 2 ^ 40 * p"
    proof
      assume "i = 2"
      then show ?thesis
        by (intro exI[of _ 1] exI[of _ 0]) (simp add: q2)
    next
      assume "i = 3"
      then show ?thesis
        by (intro exI[of _ "1/8"] exI[of _ 0] exI[of _ "1/10"]) (simp add: q3)
    qed
  qed
  have "\<exists>d. timestep example_grid example_state = Inr (Fin d) \<and> 0 < d \<and>
      1 / 2 ^ 300 \<le> d \<and> d \<le> 2 ^ 300"
    by (rule timestep_positive[OF FVGrid_example n x sh ph])
  with FVGrid_example sh e q2 q3 show ?thesis by blast
qed

section \<open>Non-physical states\<close>

text \<open>
  Claim C4, as the specification states it: a non-physical state makes the core
  raise a distinct signal. The notebook has none. \<open>cons_to_prim\<close> returns the
  negative pressure of cell 3, the negative density of cell 4 and the NaN velocity
  and pressure of the empty cell 5 as ordinary entries of its result.
\<close>

theorem cons_to_prim_returns_unphysical:
  "cons_to_prim example_grid unphysical_state =
     Inr [[Fin 1, Fin 1, Fin 1, Fin 1, Fin (-1), Fin 0],
          [Fin 0, Fin 0, Fin 0, Fin 2, Fin 0, NaN],
          [Fin 1, Fin 1, Fin 1, Fin (-2/5), Fin 1, NaN]]"
proof -
  have sh: "state_shape example_grid unphysical_state"
    by (simp add: state_shape_def unphysical_state_def example_grid_def NVAR_def)
  have n: "nat (nx example_grid + 2 * ng example_grid) = 6" "0 \<le> nx example_grid + 2 * ng example_grid"
    by (simp_all add: example_grid_def)
  have u: "[0 ..< 6] = [0, 1, 2, 3, 4, 5]" by (simp add: upt_rec)
  show ?thesis
    unfolding cons_to_prim_ok[OF sh n(2)] n(1) table_3 u
    by (simp add: to_primitive_def unphysical_state_def Let_def
          URHO_def UMX_def UENER_def QRHO_def QU_def QP_def gamma_def fsub_def inf_sign_def)
qed

text \<open>
  Claim C4, amended: the core does not detect a non-physical state. For every state
  of the grid's shape, whatever the signs of its densities and pressures,
  \<open>cons_to_prim\<close> returns the array of the primitive values that floating-point
  arithmetic gives, and \<open>make_flux_divergence\<close> and \<open>timestep\<close> return as well;
  negative values, infinities and NaN are passed on as values.
\<close>

theorem no_nonphysical_signal:
  assumes g: "FVGrid n_x n_g x_min x_max = Inr g" and n: "1 \<le> n_x" "2 \<le> n_g"
    and sh: "state_shape g U" and rs: "flux_solver rs"
  shows "(\<exists>q. cons_to_prim g U = Inr q \<and>
            (\<forall>i n. 0 \<le> i \<and> i < nx g + 2 * ng g \<and> n < NVAR \<longrightarrow>
               ent q i n = to_primitive U (nat i) n)) \<and>
         (\<exists>A. make_flux_divergence rs g U = Inr A) \<and>
         (\<exists>dt. timestep g U = Inr dt)"
proof -
  let ?N = "nat (nx g + 2 * ng g)"
  have pg: "proper_grid g" by (rule FVGrid_proper[OF g n])
  note b = proper_grid_bounds[OF pg]
  have 1: "cons_to_prim g U = Inr (table ?N (to_primitive U))"
    using sh b by (intro cons_to_prim_ok) auto
  have 2: "ent (table ?N (to_primitive U)) i n = to_primitive U (nat i) n"
    if "0 \<le> i \<and> i < nx g + 2 * ng g \<and> n < NVAR" for i n
    using that by (intro ent_table) auto
  have 3: "\<exists>A. make_flux_divergence rs g U = Inr A"
    using make_flux_divergence_ok[OF pg sh rs] by blast
  have "map (\<lambda>k. signal_speed U (nat (ilo g) + k)) [0 ..< nat (nx g)] \<noteq> []"
    using pg by (simp add: proper_grid_def)
  then obtain v vs where "map (\<lambda>k. signal_speed U (nat (ilo g) + k)) [0 ..< nat (nx g)] = v # vs"
    by (cases "map (\<lambda>k. signal_speed U (nat (ilo g) + k)) [0 ..< nat (nx g)]") auto
  then have 4: "\<exists>dt. timestep g U = Inr dt"
    by (simp add: timestep_ok[OF pg sh])
  from 1 2 3 4 show ?thesis by blast
qed

theorem no_nonphysical_signal_witness:
  "FVGrid 2 2 0 1 = Inr example_grid \<and> state_shape example_grid unphysical_state \<and>
   flux_solver central_riemann \<and>
   (\<exists>q. cons_to_prim example_grid unphysical_state = Inr q \<and>
        ent q 4 QRHO = to_primitive unphysical_state 4 QRHO) \<and>
   (\<exists>A. make_flux_divergence central_riemann example_grid unphysical_state = Inr A) \<and>
   (\<exists>dt. timestep example_grid unphysical_state = Inr dt)"
proof -
  have sh: "state_shape example_grid unphysical_state"
    by (simp add: state_shape_def unphysical_state_def example_grid_def NVAR_def)
  have n: "(1::int) \<le> 2" "(2::int) \<le> 2" by simp_all
  have rs: "flux_solver central_riemann"
    by (simp add: flux_solver_def central_riemann_def euler_flux_def Let_def NVAR_def)
  from no_nonphysical_signal[OF FVGrid_example n sh rs] obtain q where
    q: "cons_to_prim example_grid unphysical_state = Inr q"
      "\<And>i n. 0 \<le> i \<and> i < nx example_grid + 2 * ng example_grid \<and> n < NVAR \<Longrightarrow>
         ent q i n = to_primitive unphysical_state (nat i) n"
    and r: "\<exists>A. make_flux_divergence central_riemann example_grid unphysical_state = Inr A"
      "\<exists>dt. timestep example_grid unphysical_state = Inr dt"
    by blast
  have "ent q 4 QRHO = to_primitive unphysical_state 4 QRHO"
    using q(2)[of 4 QRHO] by (simp add: example_grid_def NVAR_def QRHO_def)
  with FVGrid_example sh rs q(1) r show ?thesis by blast
qed

section \<open>The integrator\<close>

text \<open>
  Claim C1, as the specification states it: the final update changes the interior
  cells only. The update is \<open>U[:, n] += dt * k2[:, n]\<close> over the whole array, and
  \<open>k2\<close> is zero in the ghost cells; a step size that is not finite makes \<open>dt * 0\<close>
  NaN. On the state below \<open>timestep\<close> returns NaN, which \<open>mol_solve\<close> passes on as
  \<open>dt\<close> (the comparison \<open>t + dt > tmax\<close> is false); the step then turns every cell
  into NaN, the ghost cells included, which the boundary fill had set to finite values.
\<close>

theorem rk2_step_not_interior_only:
  "timestep example_grid unphysical_state = Inr NaN \<and>
   fill_state example_grid unphysical_state =
     Inr [[Fin 1, Fin 1, Fin 1, Fin 1, Fin 1, Fin 1],
          [Fin 0, Fin 0, Fin 0, Fin 2, Fin 2, Fin 2],
          [Fin (5/2), Fin (5/2), Fin (5/2), Fin 1, Fin 1, Fin 1]] \<and>
   rk2_step central_riemann example_grid unphysical_state NaN =
     Inr [[NaN, NaN, NaN, NaN, NaN, NaN],
          [NaN, NaN, NaN, NaN, NaN, NaN],
          [NaN, NaN, NaN, NaN, NaN, NaN]]"
proof (intro conjI)
  show "timestep example_grid unphysical_state = Inr NaN" by (rule timestep_unphysical)
  show "fill_state example_grid unphysical_state =
     Inr [[Fin 1, Fin 1, Fin 1, Fin 1, Fin 1, Fin 1],
          [Fin 0, Fin 0, Fin 0, Fin 2, Fin 2, Fin 2],
          [Fin (5/2), Fin (5/2), Fin (5/2), Fin 1, Fin 1, Fin 1]]"
    by code_simp
  show "rk2_step central_riemann example_grid unphysical_state NaN =
     Inr [[NaN, NaN, NaN, NaN, NaN, NaN],
          [NaN, NaN, NaN, NaN, NaN, NaN],
          [NaN, NaN, NaN, NaN, NaN, NaN]]"
    by code_simp
qed

text \<open>
  Claim C1, amended: for every step size \<open>dt\<close>, one pass through the loop body of
  \<open>mol_solve\<close> fills the ghost cells of \<open>U\<close>, giving \<open>U0\<close> (every ghost cell below
  \<open>ilo\<close> holds the value of cell \<open>ilo\<close>, every ghost cell above \<open>ihi\<close> that of cell
  \<open>ihi\<close>, the interior is that of \<open>U\<close>); computes \<open>k1 = make_flux_divergence(U0)\<close>;
  forms \<open>U_tmp = U0 + 0.5 dt k1\<close> in every cell of the domain; fills the ghost cells of
  \<open>U_tmp\<close> in the same way, giving \<open>U_mid\<close>; computes
  \<open>k2 = make_flux_divergence(U_mid)\<close>; and leaves \<open>U = U0 + dt k2\<close> in every cell of the
  domain. \<open>k2\<close> is zero in the ghost cells, so that for a finite \<open>dt\<close> the update changes
  the interior cells only. \<open>k1\<close> enters only through \<open>U_mid\<close>.
\<close>

theorem rk2_step_stages:
  assumes g: "FVGrid n_x n_g x_min x_max = Inr g" and n: "1 \<le> n_x" "2 \<le> n_g"
    and sh: "state_shape g U" and rs: "flux_solver rs"
  shows "\<exists>U0 k1 U_tmp U_mid k2 U'.
     fill_state g U = Inr U0 \<and>
     (\<forall>i n. 0 \<le> i \<and> i < nx g + 2 * ng g \<and> n < NVAR \<longrightarrow>
        ent U0 i n = ent U (if i < ilo g then ilo g else if ihi g < i then ihi g else i) n) \<and>
     make_flux_divergence rs g U0 = Inr k1 \<and>
     (\<forall>i n. 0 \<le> i \<and> i < nx g + 2 * ng g \<and> n < NVAR \<longrightarrow>
        ent U_tmp i n = fadd (ent U0 i n) (fmul (fmul (Fin 0.5) dt) (ent k1 i n))) \<and>
     fill_state g U_tmp = Inr U_mid \<and>
     (\<forall>i n. 0 \<le> i \<and> i < nx g + 2 * ng g \<and> n < NVAR \<longrightarrow>
        ent U_mid i n = ent U_tmp (if i < ilo g then ilo g else if ihi g < i then ihi g else i) n) \<and>
     rk2_predict rs g U dt = Inr (U0, U_mid) \<and>
     make_flux_divergence rs g U_mid = Inr k2 \<and>
     rk2_step rs g U dt = Inr U' \<and>
     (\<forall>i n. 0 \<le> i \<and> i < nx g + 2 * ng g \<and> n < NVAR \<longrightarrow>
        ent U' i n = fadd (ent U0 i n) (fmul dt (ent k2 i n))) \<and>
     (\<forall>i n. 0 \<le> i \<and> i < nx g + 2 * ng g \<and> \<not> (ilo g \<le> i \<and> i \<le> ihi g) \<and> n < NVAR \<longrightarrow>
        ent k2 i n = Fin 0) \<and>
     (\<forall>d. dt = Fin d \<longrightarrow>
        (\<forall>i n. 0 \<le> i \<and> i < nx g + 2 * ng g \<and> \<not> (ilo g \<le> i \<and> i \<le> ihi g) \<and> n < NVAR \<longrightarrow>
           ent U' i n = ent U0 i n))"
proof -
  let ?N = "nat (nx g + 2 * ng g)"
  let ?U0 = "fill_spec g U"
  let ?k1 = "divergence_spec rs g ?U0"
  let ?Ut = "axpy g (fmul (Fin 0.5) dt) ?k1 ?U0"
  let ?Um = "fill_spec g ?Ut"
  let ?k2 = "divergence_spec rs g ?Um"
  let ?U' = "axpy g dt ?k2 ?U0"
  have pg: "proper_grid g" by (rule FVGrid_proper[OF g n])
  note b = proper_grid_bounds[OF pg]
  have fill: "ent (fill_spec g V) i n =
      ent V (if i < ilo g then ilo g else if ihi g < i then ihi g else i) n"
    if "0 \<le> i \<and> i < nx g + 2 * ng g \<and> n < NVAR" for V i n
  proof -
    have i: "0 \<le> i" "i < int ?N" "n < NVAR" using that by auto
    have lo: "(nat i < nat (ilo g)) = (i < ilo g)" using i b by linarith
    have hi: "(nat (ihi g) < nat i) = (ihi g < i)" using i b by linarith
    show ?thesis unfolding fill_spec_def ent_table[OF i] lo hi
      by (simp add: ent_def)
  qed
  have 1: "fill_state g U = Inr ?U0" by (rule fill_state_ok[OF pg sh])
  have 2: "make_flux_divergence rs g ?U0 = Inr ?k1"
    by (rule make_flux_divergence_spec[OF pg state_shape_fill_spec[OF pg] rs])
  have 3: "ent ?Ut i n = fadd (ent ?U0 i n) (fmul (fmul (Fin 0.5) dt) (ent ?k1 i n))"
    if "0 \<le> i \<and> i < nx g + 2 * ng g \<and> n < NVAR" for i n
  proof -
    have i: "0 \<le> i" "i < int ?N" "n < NVAR" using that by auto
    show ?thesis unfolding axpy_def ent_table[OF i] by (simp add: ent_nth)
  qed
  have 4: "fill_state g ?Ut = Inr ?Um" by (rule fill_state_ok[OF pg state_shape_axpy[OF pg]])
  have 5: "rk2_predict rs g U dt = Inr (?U0, ?Um)" by (rule rk2_predict_ok[OF pg sh rs])
  have 6: "make_flux_divergence rs g ?Um = Inr ?k2"
    by (rule make_flux_divergence_spec[OF pg state_shape_fill_spec[OF pg] rs])
  have 7: "rk2_step rs g U dt = Inr ?U'" by (rule rk2_step_ok[OF pg sh rs])
  have 8: "ent ?U' i n = fadd (ent ?U0 i n) (fmul dt (ent ?k2 i n))"
    if "0 \<le> i \<and> i < nx g + 2 * ng g \<and> n < NVAR" for i n
  proof -
    have i: "0 \<le> i" "i < int ?N" "n < NVAR" using that by auto
    show ?thesis unfolding axpy_def ent_table[OF i] by (simp add: ent_nth)
  qed
  have 9: "ent ?k2 i n = Fin 0"
    if r: "0 \<le> i \<and> i < nx g + 2 * ng g \<and> \<not> (ilo g \<le> i \<and> i \<le> ihi g) \<and> n < NVAR" for i n
  proof -
    have i: "0 \<le> i" "i < int ?N" "n < NVAR" using r by auto
    have c: "\<not> (ilo g \<le> int (nat i) \<and> int (nat i) < ihi g + 1)" using r by linarith
    have "ent ?k2 i n = (if ilo g \<le> int (nat i) \<and> int (nat i) < ihi g + 1
        then rhs_spec rs g ?Um (nat i) n else Fin 0)"
      unfolding divergence_spec_def by (rule ent_table[OF i])
    also have "\<dots> = Fin 0" using c by (rule if_not_P)
    finally show ?thesis .
  qed
  have 10: "ent ?U' i n = ent ?U0 i n"
    if d: "dt = Fin d"
      and r: "0 \<le> i \<and> i < nx g + 2 * ng g \<and> \<not> (ilo g \<le> i \<and> i \<le> ihi g) \<and> n < NVAR"
    for d i n
  proof -
    have "0 \<le> i \<and> i < nx g + 2 * ng g \<and> n < NVAR" using r by simp
    from 8[OF this] have "ent ?U' i n = fadd (ent ?U0 i n) (fmul dt (Fin 0))"
      by (simp only: 9[OF r])
    also have "\<dots> = ent ?U0 i n" by (simp add: d)
    finally show ?thesis .
  qed
  show ?thesis
    apply (rule exI[of _ ?U0], rule exI[of _ ?k1], rule exI[of _ ?Ut])
    apply (rule exI[of _ ?Um], rule exI[of _ ?k2], rule exI[of _ ?U'])
    using 1 2 3 4 5 6 7 8 9 10 fill[of _ _ U] fill[of _ _ ?Ut]
    apply (intro conjI allI impI)
    apply assumption+
    done
qed

theorem rk2_step_stages_witness:
  "FVGrid 2 2 0 1 = Inr example_grid \<and> state_shape example_grid example_state \<and>
   flux_solver central_riemann \<and>
   (\<exists>U0 k1 U_tmp U_mid k2 U'.
      fill_state example_grid example_state = Inr U0 \<and>
      ent U0 0 UMX = ent example_state 2 UMX \<and>
      ent U0 3 UMX = ent example_state 3 UMX \<and>
      ent U0 5 UMX = ent example_state 3 UMX \<and>
      make_flux_divergence central_riemann example_grid U0 = Inr k1 \<and>
      ent U_tmp 3 UMX = fadd (ent U0 3 UMX) (fmul (fmul (Fin 0.5) (Fin (1/10))) (ent k1 3 UMX)) \<and>
      fill_state example_grid U_tmp = Inr U_mid \<and>
      ent U_mid 0 UMX = ent U_tmp 2 UMX \<and>
      ent U_mid 3 UMX = ent U_tmp 3 UMX \<and>
      ent U_mid 5 UMX = ent U_tmp 3 UMX \<and>
      rk2_predict central_riemann example_grid example_state (Fin (1/10)) = Inr (U0, U_mid) \<and>
      make_flux_divergence central_riemann example_grid U_mid = Inr k2 \<and>
      rk2_step central_riemann example_grid example_state (Fin (1/10)) = Inr U' \<and>
      ent U' 3 UMX = fadd (ent U0 3 UMX) (fmul (Fin (1/10)) (ent k2 3 UMX)) \<and>
      ent U' 5 UMX = fadd (ent U0 5 UMX) (fmul (Fin (1/10)) (ent k2 5 UMX)) \<and>
      ent k2 5 UMX = Fin 0 \<and>
      ent U' 5 UMX = ent U0 5 UMX)"
proof -
  have sh: "state_shape example_grid example_state"
    by (simp add: state_shape_def example_state_def example_grid_def NVAR_def)
  have n: "(1::int) \<le> 2" "(2::int) \<le> 2" by simp_all
  have rs: "flux_solver central_riemann"
    by (simp add: flux_solver_def central_riemann_def euler_flux_def Let_def NVAR_def)
  note st = rk2_step_stages[OF FVGrid_example n sh rs, of "Fin (1/10)"]
  obtain U0 k1 U_tmp U_mid k2 U' where
    1: "fill_state example_grid example_state = Inr U0"
    and f0: "\<forall>i n. 0 \<le> i \<and> i < nx example_grid + 2 * ng example_grid \<and> n < NVAR \<longrightarrow>
        ent U0 i n = ent example_state (if i < ilo example_grid then ilo example_grid
           else if ihi example_grid < i then ihi example_grid else i) n"
    and 2: "make_flux_divergence central_riemann example_grid U0 = Inr k1"
    and t: "\<forall>i n. 0 \<le> i \<and> i < nx example_grid + 2 * ng example_grid \<and> n < NVAR \<longrightarrow>
        ent U_tmp i n = fadd (ent U0 i n) (fmul (fmul (Fin 0.5) (Fin (1/10))) (ent k1 i n))"
    and 3: "fill_state example_grid U_tmp = Inr U_mid"
    and fm: "\<forall>i n. 0 \<le> i \<and> i < nx example_grid + 2 * ng example_grid \<and> n < NVAR \<longrightarrow>
        ent U_mid i n = ent U_tmp (if i < ilo example_grid then ilo example_grid
           else if ihi example_grid < i then ihi example_grid else i) n"
    and 4: "rk2_predict central_riemann example_grid example_state (Fin (1/10)) = Inr (U0, U_mid)"
    and 5: "make_flux_divergence central_riemann example_grid U_mid = Inr k2"
    and 6: "rk2_step central_riemann example_grid example_state (Fin (1/10)) = Inr U'"
    and u: "\<forall>i n. 0 \<le> i \<and> i < nx example_grid + 2 * ng example_grid \<and> n < NVAR \<longrightarrow>
        ent U' i n = fadd (ent U0 i n) (fmul (Fin (1/10)) (ent k2 i n))"
    and k: "\<forall>i n. 0 \<le> i \<and> i < nx example_grid + 2 * ng example_grid \<and>
        \<not> (ilo example_grid \<le> i \<and> i \<le> ihi example_grid) \<and> n < NVAR \<longrightarrow>
        ent k2 i n = Fin 0"
    and z: "\<forall>d. Fin (1/10) = Fin d \<longrightarrow>
        (\<forall>i n. 0 \<le> i \<and> i < nx example_grid + 2 * ng example_grid \<and>
        \<not> (ilo example_grid \<le> i \<and> i \<le> ihi example_grid) \<and> n < NVAR \<longrightarrow>
        ent U' i n = ent U0 i n)"
  proof -
    show thesis
      using st
      apply (elim exE conjE)
      apply (rule that)
      apply assumption+
      done
  qed
  have c: "(0::int) \<le> 0 \<and> 0 < nx example_grid + 2 * ng example_grid \<and> UMX < NVAR"
    "(0::int) \<le> 3 \<and> 3 < nx example_grid + 2 * ng example_grid \<and> UMX < NVAR"
    "(0::int) \<le> 5 \<and> 5 < nx example_grid + 2 * ng example_grid \<and> UMX < NVAR"
    by (simp_all add: example_grid_def NVAR_def UMX_def)
  have gh: "(0::int) \<le> 5 \<and> 5 < nx example_grid + 2 * ng example_grid \<and>
      \<not> (ilo example_grid \<le> 5 \<and> 5 \<le> ihi example_grid) \<and> UMX < NVAR"
    by (simp add: example_grid_def NVAR_def UMX_def)
  have 7: "ent U0 0 UMX = ent example_state 2 UMX" "ent U0 3 UMX = ent example_state 3 UMX"
    "ent U0 5 UMX = ent example_state 3 UMX"
    using f0[rule_format, OF c(1)] f0[rule_format, OF c(2)] f0[rule_format, OF c(3)]
    by (simp_all add: example_grid_def)
  have 8: "ent U_mid 0 UMX = ent U_tmp 2 UMX" "ent U_mid 3 UMX = ent U_tmp 3 UMX"
    "ent U_mid 5 UMX = ent U_tmp 3 UMX"
    using fm[rule_format, OF c(1)] fm[rule_format, OF c(2)] fm[rule_format, OF c(3)]
    by (simp_all add: example_grid_def)
  note 9 = t[rule_format, OF c(2)] u[rule_format, OF c(2)] u[rule_format, OF c(3)]
    k[rule_format, OF gh] z[rule_format, OF refl gh]
  show ?thesis
    apply (intro conjI)
       apply (rule FVGrid_example)
      apply (rule sh)
     apply (rule rs)
    apply (rule exI[of _ U0], rule exI[of _ k1], rule exI[of _ U_tmp])
    apply (rule exI[of _ U_mid], rule exI[of _ k2], rule exI[of _ U'])
    apply (intro conjI)
    apply (rule 1 2 3 4 5 6 7 8 9)+
    done
qed



end

